theory Spec2Isabelle
  imports Main "HOL-Library.Multiset" "HOL-Library.AList"
begin

section \<open>JavaScript string primitives used by the engine\<close>

text \<open>
  Strings are lists of code units. The model is exact for strings whose code units lie
  below 256 (the range of \<^typ>\<open>char\<close>); within that range the ECMAScript white-space and
  line-terminator code units are TAB, LF, VT, FF, CR, SPACE and NBSP, and \<^verbatim>\<open>\d\<close> is
  the ten ASCII digits.
\<close>

definition backslash :: char where
  "backslash = CHR 0x5C"

definition newline :: char where
  "newline = CHR 0x0A"

text \<open>\<^verbatim>\<open>s || d\<close> on strings: the empty string is falsy.\<close>

definition or_default :: "string \<Rightarrow> string \<Rightarrow> string" where
  "or_default s d = (if s = [] then d else s)"

definition is_digit :: "char \<Rightarrow> bool" where
  "is_digit c = (c \<in> set ''0123456789'')"

definition is_space :: "char \<Rightarrow> bool" where
  "is_space c = (c \<in> set [CHR 0x09, CHR 0x0A, CHR 0x0B, CHR 0x0C, CHR 0x0D, CHR 0x20, CHR 0xA0])"

definition is_line_terminator :: "char \<Rightarrow> bool" where
  "is_line_terminator c = (c = CHR 0x0A \<or> c = CHR 0x0D)"

definition digit_char :: "nat \<Rightarrow> char" where
  "digit_char d = ''0123456789'' ! d"

text \<open>\<^verbatim>\<open>String(n)\<close> for a non-negative integer: its decimal numeral.\<close>

fun String_of_nat :: "nat \<Rightarrow> string" where
  "String_of_nat n =
     (if n < 10 then [digit_char n] else String_of_nat (n div 10) @ [digit_char (n mod 10)])"

declare String_of_nat.simps [simp del]

text \<open>\<^verbatim>\<open>s.trim()\<close>: white space and line terminators removed at both ends.\<close>

definition trim :: "string \<Rightarrow> string" where
  "trim s = rev (dropWhile is_space (rev (dropWhile is_space s)))"

text \<open>\<^verbatim>\<open>s.split(sep)\<close> for a one-character separator, and \<^verbatim>\<open>xs.join(sep)\<close>.\<close>

fun split :: "char \<Rightarrow> string \<Rightarrow> string list" where
  "split sep [] = [[]]"
| "split sep (c # cs) =
     (if c = sep then [] # split sep cs
      else (case split sep cs of [] \<Rightarrow> [[c]] | l # ls \<Rightarrow> (c # l) # ls))"

fun join :: "char \<Rightarrow> string list \<Rightarrow> string" where
  "join sep [] = []"
| "join sep [l] = l"
| "join sep (l # ls) = l @ sep # join sep ls"

text \<open>\<^verbatim>\<open>s.startsWith(p)\<close>.\<close>

definition startsWith :: "string \<Rightarrow> string \<Rightarrow> bool" where
  "startsWith s p = (take (length p) s = p)"

section \<open>Regular expressions\<close>

text \<open>
  The fragment of ECMAScript regular expressions the engine uses: a sequence of
  one-character atoms (a literal, \<^verbatim>\<open>\d\<close>, \<^verbatim>\<open>\s\<close>, \<^verbatim>\<open>.\<close>, a negated class), each with an
  optional greedy quantifier, and the assertion \<^verbatim>\<open>$\<close>; \<^verbatim>\<open>^\<close> only in front. Matching is the
  backtracking search of the language: a greedy quantifier takes the longest run first
  and gives characters back one at a time.
\<close>

datatype cclass = Lit char | Digit | Space | Dot | NoneOf "char list"

fun cmatch :: "cclass \<Rightarrow> char \<Rightarrow> bool" where
  "cmatch (Lit a) c = (c = a)"
| "cmatch Digit c = is_digit c"
| "cmatch Space c = is_space c"
| "cmatch Dot c = (\<not> is_line_terminator c)"
| "cmatch (NoneOf cs) c = (c \<notin> set cs)"

datatype quant = One | Opt | Star | Plus

datatype item = Atom cclass quant | Eol

record regex =
  anchored :: bool
  items :: "item list"

text \<open>The items of a pattern that is a literal text.\<close>

definition lits :: "string \<Rightarrow> item list" where
  "lits xs = map (\<lambda>c. Atom (Lit c) One) xs"

text \<open>
  \<open>rx_try cont s lo k\<close> lets the current atom take \<open>k\<close> characters, then \<open>k - 1\<close>, down
  to \<open>lo\<close>, and returns the first split that the rest of the pattern (\<open>cont\<close>) accepts:
  the text of the atom, followed by the texts of the later items.
\<close>

fun rx_try :: "(string \<Rightarrow> string list option) \<Rightarrow> string \<Rightarrow> nat \<Rightarrow> nat \<Rightarrow> string list option" where
  "rx_try cont s lo k =
     (case cont (drop k s) of
        Some ps \<Rightarrow> Some (take k s # ps)
      | None \<Rightarrow> if k \<le> lo then None else rx_try cont s lo (k - 1))"

declare rx_try.simps [simp del]

definition quant_min :: "quant \<Rightarrow> nat" where
  "quant_min q = (case q of One \<Rightarrow> 1 | Plus \<Rightarrow> 1 | Opt \<Rightarrow> 0 | Star \<Rightarrow> 0)"

definition quant_max :: "quant \<Rightarrow> nat \<Rightarrow> nat" where
  "quant_max q n = (case q of One \<Rightarrow> min 1 n | Opt \<Rightarrow> min 1 n | Star \<Rightarrow> n | Plus \<Rightarrow> n)"

text \<open>Match a sequence of items at the start of \<open>s\<close>: the text taken by each item.\<close>

primrec rx_items :: "item list \<Rightarrow> string \<Rightarrow> string list option" where
  "rx_items [] = (\<lambda>s. Some [])"
| "rx_items (it # r) = (\<lambda>s.
     case it of
       Eol \<Rightarrow> (if s = [] then map_option (\<lambda>ps. [] # ps) (rx_items r s) else None)
     | Atom c q \<Rightarrow>
         (let n = length (takeWhile (cmatch c) s) in
          if quant_max q n < quant_min q then None
          else rx_try (rx_items r) s (quant_min q) (quant_max q n)))"

text \<open>
  \<open>rx_search\<close> is \<^verbatim>\<open>RegExp.prototype.exec\<close> without flags: the leftmost start position
  that matches, with the text before it and the texts of the items.
\<close>

fun rx_search_from :: "item list \<Rightarrow> string \<Rightarrow> string \<Rightarrow> (string \<times> string list) option" where
  "rx_search_from its pre s =
     (case rx_items its s of
        Some ps \<Rightarrow> Some (pre, ps)
      | None \<Rightarrow> (case s of [] \<Rightarrow> None | c # cs \<Rightarrow> rx_search_from its (pre @ [c]) cs))"

definition rx_exec :: "regex \<Rightarrow> string \<Rightarrow> (string \<times> string list) option" where
  "rx_exec r s =
     (if anchored r then map_option (\<lambda>ps. ([], ps)) (rx_items (items r) s)
      else rx_search_from (items r) [] s)"

definition rx_test :: "regex \<Rightarrow> string \<Rightarrow> bool" where
  "rx_test r s = (rx_exec r s \<noteq> None)"

text \<open>\<^verbatim>\<open>s.replace(r, "")\<close> for a regular expression without the global flag.\<close>

definition rx_remove_first :: "regex \<Rightarrow> string \<Rightarrow> string" where
  "rx_remove_first r s =
     (case rx_exec r s of
        None \<Rightarrow> s
      | Some (pre, ps) \<Rightarrow> pre @ drop (length pre + length (concat ps)) s)"

text \<open>
  \<^verbatim>\<open>new RegExp(src)\<close>: the pattern source is read left to right. \<open>None\<close> stands for a
  source outside the fragment (groups, classes, braces, alternation, lazy quantifiers,
  other escapes).
\<close>

definition syntax_chars :: "char list" where
  "syntax_chars = ''.*+?^${}()|[]'' @ [backslash]"

definition escape_class :: "char \<Rightarrow> cclass option" where
  "escape_class c =
     (if c = CHR ''d'' then Some Digit
      else if c = CHR ''s'' then Some Space
      else if c \<in> set syntax_chars then Some (Lit c)
      else None)"

definition parse_quant :: "string \<Rightarrow> quant \<times> string" where
  "parse_quant s =
     (case s of
        [] \<Rightarrow> (One, [])
      | c # cs \<Rightarrow>
          if c = CHR ''*'' then (Star, cs)
          else if c = CHR ''+'' then (Plus, cs)
          else if c = CHR ''?'' then (Opt, cs)
          else (One, s))"

lemma parse_quant_length: "length (snd (parse_quant s)) \<le> length s"
  by (auto simp: parse_quant_def split: list.splits)

function parse_items :: "string \<Rightarrow> item list option" where
  "parse_items [] = Some []"
| "parse_items (c # cs) =
     (if c = CHR ''$'' then map_option (\<lambda>r. Eol # r) (parse_items cs)
      else if c = backslash then
        (case cs of
           [] \<Rightarrow> None
         | d # ds \<Rightarrow>
             (case escape_class d of
                None \<Rightarrow> None
              | Some cl \<Rightarrow>
                  map_option (\<lambda>r. Atom cl (fst (parse_quant ds)) # r)
                    (parse_items (snd (parse_quant ds)))))
      else if c = CHR ''.'' then
        map_option (\<lambda>r. Atom Dot (fst (parse_quant cs)) # r) (parse_items (snd (parse_quant cs)))
      else if c \<in> set syntax_chars then None
      else
        map_option (\<lambda>r. Atom (Lit c) (fst (parse_quant cs)) # r)
          (parse_items (snd (parse_quant cs))))"
  by pat_completeness auto
termination
proof (relation "measure length")
  show "wf (measure length)" by simp
next
  fix c :: char and cs :: string
  show "(cs, c # cs) \<in> measure length" by simp
next
  fix c :: char and cs :: string and d :: char and ds :: string
  assume "cs = d # ds"
  then show "(snd (parse_quant ds), c # cs) \<in> measure length"
    using parse_quant_length [of ds] by simp
next
  fix c :: char and cs :: string
  show "(snd (parse_quant cs), c # cs) \<in> measure length"
    using parse_quant_length [of cs] by simp
next
  fix c :: char and cs :: string
  show "(snd (parse_quant cs), c # cs) \<in> measure length"
    using parse_quant_length [of cs] by simp
qed

definition RegExp :: "string \<Rightarrow> regex option" where
  "RegExp src =
     (case src of
        [] \<Rightarrow> Some \<lparr>anchored = False, items = []\<rparr>
      | c # cs \<Rightarrow>
          if c = CHR ''^'' then map_option (\<lambda>r. \<lparr>anchored = True, items = r\<rparr>) (parse_items cs)
          else map_option (\<lambda>r. \<lparr>anchored = False, items = r\<rparr>) (parse_items src))"

text \<open>\<^verbatim>\<open>new RegExp(src).test(s)\<close>.\<close>

definition RegExp_test :: "string \<Rightarrow> string \<Rightarrow> bool" where
  "RegExp_test src s = (case RegExp src of None \<Rightarrow> False | Some r \<Rightarrow> rx_test r s)"

section \<open>Path and folder rules (pathRules)\<close>

record PathSkipOptions =
  opt_skipFolderNames :: "string list"
  opt_skipDotFolders :: bool

text \<open>
  \<^verbatim>\<open>path.replace(/^\/|\/$/g, "")\<close>: one slash is removed in front and one at the end
  of what is left.
\<close>

definition strip_slashes :: "string \<Rightarrow> string" where
  "strip_slashes p =
     (let p1 = (case p of [] \<Rightarrow> [] | c # cs \<Rightarrow> if c = CHR ''/'' then cs else p)
      in if p1 \<noteq> [] \<and> last p1 = CHR ''/'' then butlast p1 else p1)"

definition shouldSkipPath :: "string \<Rightarrow> PathSkipOptions \<Rightarrow> bool" where
  "shouldSkipPath path options =
     (let normalized = strip_slashes path in
      if normalized = [] then True
      else
        let segments = filter (\<lambda>seg. seg \<noteq> []) (split (CHR ''/'') normalized)
        in list_ex (\<lambda>segment.
             segment \<in> set (opt_skipFolderNames options) \<or>
             (opt_skipDotFolders options \<and> startsWith segment ''.'')) segments)"

definition isRootFolder :: "string \<Rightarrow> bool" where
  "isRootFolder folderPath = (trim (strip_slashes folderPath) = [])"

definition getHubNameForFolder :: "string \<Rightarrow> string \<Rightarrow> string" where
  "getHubNameForFolder folderName suffix = folderName @ or_default suffix ''_''"

definition getNumberedHubName :: "string \<Rightarrow> nat \<Rightarrow> string \<Rightarrow> string" where
  "getNumberedHubName folderName index suffix =
     (let s = or_default suffix ''_'' in folderName @ s @ String_of_nat index)"

definition escapeRegex :: "string \<Rightarrow> string" where
  "escapeRegex s = concat (map (\<lambda>c. if c \<in> set syntax_chars then [backslash, c] else [c]) s)"

text \<open>The source of the pattern that \<^verbatim>\<open>getNumberedHubPattern\<close> hands to \<^verbatim>\<open>new RegExp\<close>.\<close>

definition getNumberedHubPattern :: "string \<Rightarrow> string \<Rightarrow> string" where
  "getNumberedHubPattern folderName suffix =
     (let escapedFolder = escapeRegex folderName;
          escapedSuffix = escapeRegex (or_default suffix ''_'')
      in ''^'' @ escapedFolder @ escapedSuffix @ [backslash] @ ''d+$'')"

section \<open>Settings, files, folders and the vault\<close>

text \<open>
  \<^verbatim>\<open>HubSettings\<close> with the fields of the source. \<open>previousHubSuffix\<close> is optional
  because the engine reads it as \<^verbatim>\<open>settings.previousHubSuffix ?? settings.hubSuffix\<close>.
\<close>

record HubSettings =
  hubSuffix :: string
  previousHubSuffix :: "string option"
  hubInsertTitle :: string
  skipFolderNames :: "string list"
  skipDotFolders :: bool
  parentLinkForSubfolderHubs :: bool
  updateHubOnFolderRename :: bool
  insertHubLinkOnCreate :: bool
  updateHubLinkOnMove :: bool
  debugLogs :: bool
  hideObHideSpans :: bool
  removeHiddenBlink :: bool
  autoHideHubLinks :: bool
  hideHubNotesInExplorer :: bool
  folderDirectoryColor :: string
  realTimeUpdating :: bool
  excludeHubLinksFromSelectAll :: bool
  insertSeparatorAfterHubLink :: bool
  autoCreateSuppressedUntilBuildRefresh :: bool

text \<open>
  A folder object carries its path, its name and its parent; the root folder has the
  path \<^verbatim>\<open>/\<close> and no parent. A file object carries its path, its base name (the file
  name without the extension), its extension and its parent folder.
\<close>

datatype TFolder = TFolder (folder_path: string) (folder_name: string) (folder_parent: "TFolder option")

definition isRoot :: "TFolder \<Rightarrow> bool" where
  "isRoot f = (folder_path f = ''/'')"

record TFile =
  file_path :: string
  basename :: string
  extension :: string
  file_parent :: "TFolder option"

text \<open>
  The vault as an explicit store: the folders that \<^verbatim>\<open>getAllFolders(false)\<close> enumerates
  (every folder but the root, in the order of the storage layer), the files with their
  text, and the creation times that \<^verbatim>\<open>adapter.stat\<close> reports. The \<^verbatim>\<open>children\<close> field of a
  folder object is read off the store: the files whose parent has the folder's path, in
  the order of the store.
\<close>

record Vault =
  allFolders :: "TFolder list"
  files :: "(TFile \<times> string) list"
  stats :: "(string \<times> int) list"

definition stat_ctime :: "Vault \<Rightarrow> string \<Rightarrow> int option" where
  "stat_ctime v p = map_of (stats v) p"

definition file_children :: "Vault \<Rightarrow> TFolder \<Rightarrow> TFile list" where
  "file_children v folder =
     filter (\<lambda>f. map_option folder_path (file_parent f) = Some (folder_path folder))
       (map fst (files v))"

section \<open>The hub of a folder (hubForFolder)\<close>

definition pathSkipFromSettings :: "HubSettings \<Rightarrow> PathSkipOptions" where
  "pathSkipFromSettings s =
     \<lparr>opt_skipFolderNames = skipFolderNames s, opt_skipDotFolders = skipDotFolders s\<rparr>"

definition findHubInFolderWithName :: "Vault \<Rightarrow> TFolder \<Rightarrow> string \<Rightarrow> HubSettings \<Rightarrow> TFile option" where
  "findHubInFolderWithName v folder folderName settings =
     (let suffix = or_default (hubSuffix settings) ''_'';
          baseName = getHubNameForFolder folderName suffix;
          numberedPattern = getNumberedHubPattern folderName suffix
      in find (\<lambda>child. basename child = baseName \<or> RegExp_test numberedPattern (basename child))
           (file_children v folder))"

definition findHubInFolder :: "Vault \<Rightarrow> TFolder \<Rightarrow> HubSettings \<Rightarrow> TFile option" where
  "findHubInFolder v folder settings = findHubInFolderWithName v folder (folder_name folder) settings"

text \<open>\<^verbatim>\<open>stat?.ctime ?? 0\<close>: a missing stat counts as creation time zero.\<close>

definition ctime_or_zero :: "Vault \<Rightarrow> TFolder \<Rightarrow> int" where
  "ctime_or_zero v f = (case stat_ctime v (folder_path f) of None \<Rightarrow> 0 | Some c \<Rightarrow> c)"

text \<open>
  \<^verbatim>\<open>withStat.sort((a, b) => a.ctime - b.ctime)\<close> is a stable sort on the creation time;
  \<^const>\<open>sort_key\<close> is the stable insertion sort.
\<close>

definition getFoldersWithSameName :: "Vault \<Rightarrow> string \<Rightarrow> PathSkipOptions \<Rightarrow> TFolder list" where
  "getFoldersWithSameName v folderName options =
     (let all = allFolders v;
          sameName = filter (\<lambda>f. folder_name f = folderName \<and> \<not> shouldSkipPath (folder_path f) options) all;
          withStat = map (\<lambda>f. (f, ctime_or_zero v f)) sameName
      in map fst (sort_key snd withStat))"

text \<open>\<^verbatim>\<open>xs.findIndex(p)\<close>; \<open>None\<close> stands for \<^verbatim>\<open>-1\<close>.\<close>

fun findIndex :: "('a \<Rightarrow> bool) \<Rightarrow> 'a list \<Rightarrow> nat option" where
  "findIndex p [] = None"
| "findIndex p (x # xs) = (if p x then Some 0 else map_option Suc (findIndex p xs))"

definition getExpectedHubNameForFolder :: "Vault \<Rightarrow> TFolder \<Rightarrow> HubSettings \<Rightarrow> string" where
  "getExpectedHubNameForFolder v folder settings =
     (let suffix = or_default (hubSuffix settings) ''_'';
          sameName = getFoldersWithSameName v (folder_name folder) (pathSkipFromSettings settings)
      in if length sameName \<le> 1 then getHubNameForFolder (folder_name folder) suffix
         else
           (case findIndex (\<lambda>f. folder_path f = folder_path folder) sameName of
              None \<Rightarrow> getHubNameForFolder (folder_name folder) suffix
            | Some index \<Rightarrow> getNumberedHubName (folder_name folder) (index + 1) suffix))"

definition WAIT_FOR_HUB_ATTEMPTS :: int where
  "WAIT_FOR_HUB_ATTEMPTS = 60"

definition WAIT_MS_PER_ATTEMPT :: int where
  "WAIT_MS_PER_ATTEMPT = 100"

definition WRITE_LOCK_MS :: int where
  "WRITE_LOCK_MS = 1200"

record WaitForNumberedHubOptions =
  attempts :: "int option"
  msPerAttempt :: "int option"

text \<open>
  The polling loop of \<^verbatim>\<open>waitForNumberedHub\<close>. Other tasks may change the vault while the
  loop sleeps, so the loop reads the vault of its \<open>i\<close>-th attempt from \<open>vaultAt i\<close>. The
  result is the hub (or \<open>None\<close> for \<^verbatim>\<open>null\<close>) and the number of attempts made.
\<close>

function wait_loop :: "(nat \<Rightarrow> Vault) \<Rightarrow> TFolder \<Rightarrow> HubSettings \<Rightarrow> int \<Rightarrow> nat \<Rightarrow> TFile option \<times> nat" where
  "wait_loop vaultAt folder settings n i =
     (if int i < n then
        (let expectedName = getExpectedHubNameForFolder (vaultAt i) folder settings;
             hub = findHubInFolder (vaultAt i) folder settings
         in case hub of
              Some h \<Rightarrow>
                if basename h = expectedName then (Some h, i + 1)
                else wait_loop vaultAt folder settings n (i + 1)
            | None \<Rightarrow> wait_loop vaultAt folder settings n (i + 1))
      else (None, i))"
  by pat_completeness auto
termination
  by (relation "measure (\<lambda>(vaultAt, folder, settings, n, i). nat (n - int i))") auto

declare wait_loop.simps [simp del]

definition waitForNumberedHub ::
  "(nat \<Rightarrow> Vault) \<Rightarrow> TFolder \<Rightarrow> HubSettings \<Rightarrow> WaitForNumberedHubOptions option \<Rightarrow> TFile option \<times> nat" where
  "waitForNumberedHub vaultAt folder settings options =
     (let n = (case Option.bind options attempts of None \<Rightarrow> WAIT_FOR_HUB_ATTEMPTS | Some a \<Rightarrow> a)
      in wait_loop vaultAt folder settings n 0)"

text \<open>The filter of \<^verbatim>\<open>getFoldersWithSameName\<close>: the name group of a folder name.\<close>

definition in_name_group :: "string \<Rightarrow> PathSkipOptions \<Rightarrow> TFolder \<Rightarrow> bool" where
  "in_name_group folderName options f =
     (folder_name f = folderName \<and> \<not> shouldSkipPath (folder_path f) options)"

text \<open>What one attempt of the polling loop looks for: a hub with the expected name.\<close>

definition stable_hub :: "Vault \<Rightarrow> TFolder \<Rightarrow> HubSettings \<Rightarrow> TFile option" where
  "stable_hub v folder settings =
     (case findHubInFolder v folder settings of
        None \<Rightarrow> None
      | Some h \<Rightarrow> if basename h = getExpectedHubNameForFolder v folder settings then Some h else None)"

text \<open>\<^verbatim>\<open>DEFAULT_SETTINGS\<close> of the settings module, and folders used in examples.\<close>

definition DEFAULT_SETTINGS :: HubSettings where
  "DEFAULT_SETTINGS =
     \<lparr>hubSuffix = ''_'', previousHubSuffix = Some ''_'', hubInsertTitle = ''## DIRECTORY'',
      skipFolderNames = [''.trash'', ''ATTACHMENTS''], skipDotFolders = True,
      parentLinkForSubfolderHubs = True, updateHubOnFolderRename = True,
      insertHubLinkOnCreate = True, updateHubLinkOnMove = True, debugLogs = False,
      hideObHideSpans = True, removeHiddenBlink = False, autoHideHubLinks = False,
      hideHubNotesInExplorer = True, folderDirectoryColor = ''#7B61E2'',
      realTimeUpdating = True, excludeHubLinksFromSelectAll = True,
      insertSeparatorAfterHubLink = True, autoCreateSuppressedUntilBuildRefresh = True\<rparr>"

definition root_folder :: TFolder where
  "root_folder = TFolder ''/'' [] None"

text \<open>The folder \<^verbatim>\<open>d/n\<close> inside the top-level folder \<^verbatim>\<open>d\<close>.\<close>

definition sub_folder :: "string \<Rightarrow> string \<Rightarrow> TFolder" where
  "sub_folder d n = TFolder (d @ ''/'' @ n) n (Some (TFolder d d (Some root_folder)))"

text \<open>An example vault: three folders named \<^verbatim>\<open>X\<close>, enumerated out of creation order.\<close>

definition example_vault :: Vault where
  "example_vault =
     \<lparr>allFolders = [sub_folder ''c'' ''X'', sub_folder ''a'' ''X'', sub_folder ''b'' ''X''],
      files = [],
      stats = [(''a/X'', 10), (''b/X'', 20), (''c/X'', 30)]\<rparr>"

text \<open>A file \<^verbatim>\<open>name.md\<close> in a folder.\<close>

definition md_file :: "TFolder \<Rightarrow> string \<Rightarrow> TFile" where
  "md_file folder name =
     \<lparr>file_path = folder_path folder @ ''/'' @ name @ ''.md'', basename = name,
      extension = ''md'', file_parent = Some folder\<rparr>"

section \<open>The world the engine acts on\<close>

text \<open>
  The engine shares three mutable objects: the vault, the settings object and the
  write-lock table. The model threads them through every operation as one record,
  together with the current time (\<^verbatim>\<open>Date.now()\<close>, which does not advance inside one
  operation), the data file that \<^verbatim>\<open>saveSettings\<close> writes (\<open>None\<close> before the first
  write), and the trace of storage operations performed so far (oldest first).

  There can be two settings objects. \<open>w_settings\<close> is the object that the engine's
  functions are given as their \<^verbatim>\<open>settings\<close> argument; for the vault event handlers that is
  the object which \<^verbatim>\<open>registerVaultEvents\<close> read from \<^verbatim>\<open>plugin.settings\<close> once, when the
  handlers were registered. \<open>w_plugin_settings\<close> is \<open>None\<close> as long as the field
  \<^verbatim>\<open>plugin.settings\<close> refers to that same object, and holds the other object once the
  field has been assigned a new one. \<open>w_startup_due\<close> is the time at which the timer of
  the startup pass is due, if one is pending, and \<open>w_configDir\<close> is \<^verbatim>\<open>vault.configDir\<close>.
\<close>

datatype storage_op =
    Create string string
  | Modify string string
  | Rename string string
  | Trash string

datatype error =
    TypeError
  | FileExists string
  | FileMissing string
  | FolderMissing string

record World =
  w_vault :: Vault
  w_settings :: HubSettings
  w_saved :: "HubSettings option"
  w_locks :: "(string \<times> int) list"
  w_clock :: int
  w_writes :: "storage_op list"
  w_plugin_settings :: "HubSettings option"
  w_startup_due :: "int option"
  w_configDir :: string

type_synonym 'a io = "World \<Rightarrow> (error + 'a) \<times> World"

definition return_io :: "'a \<Rightarrow> 'a io" where
  "return_io x = (\<lambda>w. (Inr x, w))"

definition throw :: "error \<Rightarrow> 'a io" where
  "throw e = (\<lambda>w. (Inl e, w))"

text \<open>\<^verbatim>\<open>await m; f(result)\<close>: a rejected promise ends the calling function.\<close>

definition bind_io :: "'a io \<Rightarrow> ('a \<Rightarrow> 'b io) \<Rightarrow> 'b io" where
  "bind_io m f = (\<lambda>w. case m w of (Inl e, w') \<Rightarrow> (Inl e, w') | (Inr x, w') \<Rightarrow> f x w')"

definition ask :: "(World \<Rightarrow> 'a) \<Rightarrow> 'a io" where
  "ask f = (\<lambda>w. (Inr (f w), w))"

text \<open>\<^verbatim>\<open>for (const x of xs) { await body(x) }\<close> over a list fixed when the loop starts.\<close>

fun foreach :: "'a list \<Rightarrow> ('a \<Rightarrow> unit io) \<Rightarrow> unit io" where
  "foreach [] body = return_io ()"
| "foreach (x # xs) body = bind_io (body x) (\<lambda>_. foreach xs body)"

text \<open>\<^verbatim>\<open>promise.catch(() => {})\<close>: a failure is dropped, what was done before it stays.\<close>

definition catch_ignore :: "unit io \<Rightarrow> World \<Rightarrow> World" where
  "catch_ignore m w = snd (m w)"

text \<open>
  \<^verbatim>\<open>task().catch(() => {})\<close> without \<^verbatim>\<open>await\<close>: a task is started and its failure is
  dropped. The caller goes on at once; here the task runs to its end before anything
  else happens. Of the schedules of the code, the model so has those in which no other
  event arrives while a started task is waiting for the storage layer or for a timer.
\<close>

definition spawn :: "unit io \<Rightarrow> unit io" where
  "spawn m = (\<lambda>w. (Inr (), catch_ignore m w))"

subsection \<open>The write lock (writeLock)\<close>

definition setWriteLock :: "string \<Rightarrow> unit io" where
  "setWriteLock path = (\<lambda>w. (Inr (), w\<lparr>w_locks := AList.update path (w_clock w) (w_locks w)\<rparr>))"

definition isWriteLocked :: "string \<Rightarrow> bool io" where
  "isWriteLocked path = (\<lambda>w.
     case map_of (w_locks w) path of
       None \<Rightarrow> (Inr False, w)
     | Some t \<Rightarrow>
         if w_clock w - t \<ge> WRITE_LOCK_MS
         then (Inr False, w\<lparr>w_locks := AList.delete path (w_locks w)\<rparr>)
         else (Inr True, w))"

subsection \<open>The storage operations of the vault\<close>

text \<open>
  The storage layer is outside the engine. Its operations are modelled as the engine
  uses them: a path names at most one file; creating or renaming onto a path that a file
  or folder has fails, as does creating below a folder that does not exist and reading,
  modifying or trashing a file that is gone; a created or renamed file is the last child
  of its folder. The parts of a path are read off its text.
\<close>

definition path_dir :: "string \<Rightarrow> string" where
  "path_dir p = (if CHR ''/'' \<in> set p then rev (tl (dropWhile (\<lambda>c. c \<noteq> CHR ''/'') (rev p))) else ''/'')"

definition path_name :: "string \<Rightarrow> string" where
  "path_name p = rev (takeWhile (\<lambda>c. c \<noteq> CHR ''/'') (rev p))"

definition name_basename :: "string \<Rightarrow> string" where
  "name_basename n = (if CHR ''.'' \<in> set n then rev (tl (dropWhile (\<lambda>c. c \<noteq> CHR ''.'') (rev n))) else n)"

definition name_extension :: "string \<Rightarrow> string" where
  "name_extension n = (if CHR ''.'' \<in> set n then rev (takeWhile (\<lambda>c. c \<noteq> CHR ''.'') (rev n)) else [])"

definition getFolderByPath :: "Vault \<Rightarrow> string \<Rightarrow> TFolder option" where
  "getFolderByPath v p =
     (if p = ''/'' then Some root_folder else find (\<lambda>f. folder_path f = p) (allFolders v))"

definition getFileByPath :: "Vault \<Rightarrow> string \<Rightarrow> TFile option" where
  "getFileByPath v p = find (\<lambda>f. file_path f = p) (map fst (files v))"

definition path_taken :: "Vault \<Rightarrow> string \<Rightarrow> bool" where
  "path_taken v p = (getFileByPath v p \<noteq> None \<or> (\<exists>f \<in> set (allFolders v). folder_path f = p))"

definition file_at :: "Vault \<Rightarrow> string \<Rightarrow> TFile option" where
  "file_at v p =
     map_option (\<lambda>parent.
        \<lparr>file_path = p, basename = name_basename (path_name p),
         extension = name_extension (path_name p), file_parent = Some parent\<rparr>)
       (getFolderByPath v (path_dir p))"

definition getMarkdownFiles :: "Vault \<Rightarrow> TFile list" where
  "getMarkdownFiles v = filter (\<lambda>f. extension f = ''md'') (map fst (files v))"

definition vault_read :: "TFile \<Rightarrow> string io" where
  "vault_read file = (\<lambda>w.
     case map_of (map (\<lambda>(f, c). (file_path f, c)) (files (w_vault w))) (file_path file) of
       None \<Rightarrow> (Inl (FileMissing (file_path file)), w)
     | Some c \<Rightarrow> (Inr c, w))"

definition vault_modify :: "TFile \<Rightarrow> string \<Rightarrow> unit io" where
  "vault_modify file data = (\<lambda>w.
     if getFileByPath (w_vault w) (file_path file) = None then (Inl (FileMissing (file_path file)), w)
     else
       (Inr (),
        w\<lparr>w_vault := (w_vault w)\<lparr>files :=
              map (\<lambda>(f, c). if file_path f = file_path file then (f, data) else (f, c))
                (files (w_vault w))\<rparr>,
          w_writes := w_writes w @ [Modify (file_path file) data]\<rparr>))"

definition vault_create :: "string \<Rightarrow> string \<Rightarrow> unit io" where
  "vault_create path data = (\<lambda>w.
     if path_taken (w_vault w) path then (Inl (FileExists path), w)
     else
       (case file_at (w_vault w) path of
          None \<Rightarrow> (Inl (FolderMissing (path_dir path)), w)
        | Some f \<Rightarrow>
            (Inr (),
             w\<lparr>w_vault := (w_vault w)\<lparr>files := files (w_vault w) @ [(f, data)]\<rparr>,
               w_writes := w_writes w @ [Create path data]\<rparr>)))"

definition vault_rename :: "TFile \<Rightarrow> string \<Rightarrow> unit io" where
  "vault_rename file newPath = (\<lambda>w.
     case map_of (map (\<lambda>(f, c). (file_path f, c)) (files (w_vault w))) (file_path file) of
       None \<Rightarrow> (Inl (FileMissing (file_path file)), w)
     | Some data \<Rightarrow>
         if path_taken (w_vault w) newPath then (Inl (FileExists newPath), w)
         else
           (case file_at (w_vault w) newPath of
              None \<Rightarrow> (Inl (FolderMissing (path_dir newPath)), w)
            | Some f \<Rightarrow>
                (Inr (),
                 w\<lparr>w_vault := (w_vault w)\<lparr>files :=
                       filter (\<lambda>(g, c). file_path g \<noteq> file_path file) (files (w_vault w)) @ [(f, data)]\<rparr>,
                   w_writes := w_writes w @ [Rename (file_path file) newPath]\<rparr>)))"

definition trashFile :: "TFile \<Rightarrow> unit io" where
  "trashFile file = (\<lambda>w.
     if getFileByPath (w_vault w) (file_path file) = None then (Inl (FileMissing (file_path file)), w)
     else
       (Inr (),
        w\<lparr>w_vault := (w_vault w)\<lparr>files :=
              filter (\<lambda>(g, c). file_path g \<noteq> file_path file) (files (w_vault w))\<rparr>,
          w_writes := w_writes w @ [Trash (file_path file)]\<rparr>))"

text \<open>\<^verbatim>\<open>plugin.settings\<close>, read through the field of the plugin.\<close>

definition plugin_settings :: "World \<Rightarrow> HubSettings" where
  "plugin_settings w = (case w_plugin_settings w of None \<Rightarrow> w_settings w | Some p \<Rightarrow> p)"

text \<open>\<^verbatim>\<open>saveSettings\<close> of the plugin: \<^verbatim>\<open>saveData(this.settings)\<close>.\<close>

definition saveSettings :: "unit io" where
  "saveSettings = (\<lambda>w. (Inr (), w\<lparr>w_saved := Some (plugin_settings w)\<rparr>))"

section \<open>Hub creation and content (hubContent)\<close>

text \<open>
  Inside one operation nothing but the engine changes the vault, so the polling loop of
  \<open>waitForNumberedHub\<close> sees the same vault at every attempt.
\<close>

definition waitForNumberedHub_now :: "Vault \<Rightarrow> TFolder \<Rightarrow> HubSettings \<Rightarrow> TFile option" where
  "waitForNumberedHub_now v folder s = fst (waitForNumberedHub (\<lambda>i. v) folder s None)"

definition wiki_link :: "string \<Rightarrow> string" where
  "wiki_link name = ''[['' @ name @ '']]''"

text \<open>
  \<open>buildHubContent\<close>: the heading, the link to the parent's expected hub name (for a
  folder whose parent is not the root, when the setting is on), and the directory block.
  The result of waiting for the parent's hub is not used.
\<close>

definition buildHubContent :: "Vault \<Rightarrow> TFolder \<Rightarrow> HubSettings \<Rightarrow> string" where
  "buildHubContent v folder s =
     (let lines0 = [or_default (hubInsertTitle s) ''## DIRECTORY'', []];
          lines1 =
            (case folder_parent folder of
               None \<Rightarrow> lines0
             | Some parent \<Rightarrow>
                 if \<not> isRoot parent \<and> parentLinkForSubfolderHubs s then
                   (let waited = waitForNumberedHub_now v parent s;
                        parentHubName = getExpectedHubNameForFolder v parent s
                    in lines0 @ [wiki_link parentHubName, []])
                 else lines0)
      in join newline (lines1 @ [''```display_folder_directory'', ''```'', []]))"

definition ensureHubContentUpToDate :: "TFile \<Rightarrow> TFolder \<Rightarrow> unit io" where
  "ensureHubContentUpToDate hubFile folder =
     bind_io (ask (\<lambda>w. buildHubContent (w_vault w) folder (w_settings w))) (\<lambda>desired.
     bind_io (vault_read hubFile) (\<lambda>current.
       if current = desired then return_io ()
       else bind_io (setWriteLock (file_path hubFile)) (\<lambda>_. vault_modify hubFile desired)))"

definition ensureHubForFolder :: "TFolder \<Rightarrow> unit io" where
  "ensureHubForFolder folder =
     bind_io (ask (\<lambda>w. getExpectedHubNameForFolder (w_vault w) folder (w_settings w))) (\<lambda>expectedName.
     bind_io (ask (\<lambda>w. findHubInFolder (w_vault w) folder (w_settings w))) (\<lambda>hub.
       case hub of
         Some h \<Rightarrow> ensureHubContentUpToDate h folder
       | None \<Rightarrow>
           bind_io (ask (\<lambda>w. buildHubContent (w_vault w) folder (w_settings w))) (\<lambda>content.
             let path = folder_path folder @ ''/'' @ expectedName @ ''.md''
             in bind_io (setWriteLock path) (\<lambda>_. vault_create path content))))"

text \<open>Rename a hub to its expected name and bring the renamed file up to date.\<close>

definition rename_hub :: "TFile \<Rightarrow> TFolder \<Rightarrow> string \<Rightarrow> unit io" where
  "rename_hub hub folder expectedName =
     (let newPath = folder_path folder @ ''/'' @ expectedName @ ''.md'' in
      bind_io (setWriteLock (file_path hub)) (\<lambda>_.
      bind_io (setWriteLock newPath) (\<lambda>_.
      bind_io (vault_rename hub newPath) (\<lambda>_.
      bind_io (ask (\<lambda>w. getFileByPath (w_vault w) newPath)) (\<lambda>updated.
        case updated of
          Some u \<Rightarrow> ensureHubContentUpToDate u folder
        | None \<Rightarrow> return_io ())))))"

text \<open>One round of the numbering loop of \<open>assignNumberedHubsForName\<close>.\<close>

definition assign_numbered_hub :: "string \<Rightarrow> string \<Rightarrow> TFolder \<times> nat \<Rightarrow> unit io" where
  "assign_numbered_hub folderName suffix fi =
     (let folder = fst fi; i = snd fi;
          expectedName = getNumberedHubName folderName (i + 1) suffix in
      bind_io (ask (\<lambda>w. findHubInFolder (w_vault w) folder (w_settings w))) (\<lambda>hub.
        case hub of
          None \<Rightarrow>
            bind_io (ask (\<lambda>w. buildHubContent (w_vault w) folder (w_settings w))) (\<lambda>content.
              let path = folder_path folder @ ''/'' @ expectedName @ ''.md''
              in bind_io (setWriteLock path) (\<lambda>_. vault_create path content))
        | Some h \<Rightarrow>
            if basename h \<noteq> expectedName then rename_hub h folder expectedName
            else ensureHubContentUpToDate h folder))"

definition assignNumberedHubsForName :: "string \<Rightarrow> unit io" where
  "assignNumberedHubsForName folderName =
     bind_io (ask (\<lambda>w. getFoldersWithSameName (w_vault w) folderName
                          (pathSkipFromSettings (w_settings w)))) (\<lambda>sameName.
     bind_io (ask (\<lambda>w. or_default (hubSuffix (w_settings w)) ''_'')) (\<lambda>suffix.
       if length sameName \<le> 1 then
         (case sameName of
            [] \<Rightarrow> return_io ()
          | folder # _ \<Rightarrow>
              (let expectedName = getHubNameForFolder folderName suffix in
               bind_io (ask (\<lambda>w. findHubInFolderWithName (w_vault w) folder folderName (w_settings w)))
                 (\<lambda>hub.
                   case hub of
                     None \<Rightarrow> return_io ()
                   | Some h \<Rightarrow>
                       if basename h \<noteq> expectedName then rename_hub h folder expectedName
                       else return_io ())))
       else foreach (zip sameName [0 ..< length sameName]) (assign_numbered_hub folderName suffix)))"

definition handleDuplicateFolderNames :: "string \<Rightarrow> unit io" where
  "handleDuplicateFolderNames folderName = assignNumberedHubsForName folderName"

text \<open>
  The functions below take an \<^verbatim>\<open>app\<close> object and start with \<^verbatim>\<open>app.vault\<close>. The plugin
  commands pass the application object. The event handlers pass the vault object itself,
  which has no \<^verbatim>\<open>vault\<close> property: there \<^verbatim>\<open>app.vault\<close> is undefined and its first use raises a
  \<^verbatim>\<open>TypeError\<close>.
\<close>

datatype app_object = TheApp | TheVault

definition app_vault :: "app_object \<Rightarrow> unit io" where
  "app_vault app = (case app of TheApp \<Rightarrow> return_io () | TheVault \<Rightarrow> throw TypeError)"

text \<open>
  \<open>deleteAllHubFilesWithSuffix\<close>: in every folder that is neither excluded nor the root,
  the children that the folder has when its turn comes and that carry the undecorated or
  a numbered hub name for the given suffix are trashed.
\<close>

definition delete_hub_files_in :: "string \<Rightarrow> TFolder \<Rightarrow> unit io" where
  "delete_hub_files_in suffix folder =
     bind_io (ask (\<lambda>w. shouldSkipPath (folder_path folder) (pathSkipFromSettings (w_settings w))))
       (\<lambda>skip.
         if skip then return_io ()
         else if isRootFolder (folder_path folder) then return_io ()
         else
           (let baseName = getHubNameForFolder (folder_name folder) suffix;
                numberedPattern = getNumberedHubPattern (folder_name folder) suffix in
            bind_io (ask (\<lambda>w. file_children (w_vault w) folder)) (\<lambda>children.
              foreach children (\<lambda>child.
                if basename child = baseName \<or> RegExp_test numberedPattern (basename child)
                then bind_io (setWriteLock (file_path child)) (\<lambda>_. trashFile child)
                else return_io ()))))"

definition deleteAllHubFilesWithSuffix :: "app_object \<Rightarrow> string \<Rightarrow> unit io" where
  "deleteAllHubFilesWithSuffix app suffix =
     bind_io (app_vault app) (\<lambda>_.
     bind_io (ask (\<lambda>w. allFolders (w_vault w))) (\<lambda>all.
       foreach all (delete_hub_files_in suffix)))"

definition migrateHubSuffix :: "app_object \<Rightarrow> string \<Rightarrow> unit io" where
  "migrateHubSuffix app oldSuffix = deleteAllHubFilesWithSuffix app oldSuffix"

definition removeAllHubNotes :: "app_object \<Rightarrow> unit io" where
  "removeAllHubNotes app =
     bind_io (ask (\<lambda>w. or_default (hubSuffix (w_settings w)) ''_'')) (deleteAllHubFilesWithSuffix app)"

text \<open>\<^verbatim>\<open>settings.previousHubSuffix ?? settings.hubSuffix\<close>.\<close>

definition previous_or_current :: "HubSettings \<Rightarrow> string" where
  "previous_or_current s = (case previousHubSuffix s of None \<Rightarrow> hubSuffix s | Some p \<Rightarrow> p)"

text \<open>A folder that the full pass handles: neither excluded nor the root.\<close>

definition eligible :: "HubSettings \<Rightarrow> TFolder \<Rightarrow> bool" where
  "eligible s folder =
     (\<not> shouldSkipPath (folder_path folder) (pathSkipFromSettings s) \<and>
      \<not> isRootFolder (folder_path folder))"

text \<open>
  The name counter of the full pass is a \<^verbatim>\<open>Map\<close>: a name keeps the position of its first
  insertion, which \<^const>\<open>AList.update\<close> does as well.
\<close>

definition count_names :: "TFolder list \<Rightarrow> (string \<times> nat) list" where
  "count_names fs =
     fold (\<lambda>folder nameCount.
             AList.update (folder_name folder)
               ((case map_of nameCount (folder_name folder) of None \<Rightarrow> 0 | Some n \<Rightarrow> n) + 1)
               nameCount)
       fs []"

definition buildRefreshHubNotes :: "app_object \<Rightarrow> unit io" where
  "buildRefreshHubNotes app =
     bind_io (ask (\<lambda>w. previous_or_current (w_settings w))) (\<lambda>prev.
     bind_io (ask (\<lambda>w. hubSuffix (w_settings w))) (\<lambda>current.
     bind_io (if prev \<noteq> current then migrateHubSuffix app prev else return_io ()) (\<lambda>_.
     bind_io (app_vault app) (\<lambda>_.
     bind_io (ask (\<lambda>w. allFolders (w_vault w))) (\<lambda>all.
     bind_io (ask (\<lambda>w. filter (eligible (w_settings w)) all)) (\<lambda>handled.
     bind_io (foreach handled ensureHubForFolder) (\<lambda>_.
       foreach (count_names handled) (\<lambda>nc.
         if snd nc > 1 then assignNumberedHubsForName (fst nc) else return_io ()))))))))"

section \<open>Links in notes (linksInNotes)\<close>

text \<open>The regular-expression literals of the module, as items.\<close>

definition rx_wiki_link :: regex where
  \<comment> \<open>\<^verbatim>\<open>/^\[\[([^\]#|]+)/\<close>\<close>
  "rx_wiki_link = \<lparr>anchored = True, items = lits ''[['' @ [Atom (NoneOf '']#|'') Plus]\<rparr>"

definition rx_span_wiki_link :: regex where
  \<comment> \<open>\<^verbatim>\<open>/<span[^>]*>\[\[([^\]#|]+)/\<close>\<close>
  "rx_span_wiki_link =
     \<lparr>anchored = False,
      items = lits ''<span'' @ [Atom (NoneOf ''>'') Star] @ lits ''>[['' @ [Atom (NoneOf '']#|'') Plus]\<rparr>"

definition rx_separator :: regex where
  \<comment> \<open>\<^verbatim>\<open>/^\s*\n?---\s*\n\s*/\<close>\<close>
  "rx_separator =
     \<lparr>anchored = True,
      items = [Atom Space Star, Atom (Lit newline) Opt] @ lits ''---'' @
              [Atom Space Star, Atom (Lit newline) One, Atom Space Star]\<rparr>"

definition rx_heading :: regex where
  \<comment> \<open>\<^verbatim>\<open>/^##\s+/\<close>\<close>
  "rx_heading = \<lparr>anchored = True, items = lits ''##'' @ [Atom Space Plus]\<rparr>"

definition CSS_CLASS_OB_HIDE :: string where
  "CSS_CLASS_OB_HIDE = ''graphforge-ob-hide''"

text \<open>
  \<open>extractWikiLinkTarget\<close>: the capture group is the last item of either pattern, so its
  text is the last of the texts of a match.
\<close>

definition extractWikiLinkTarget :: "string \<Rightarrow> string option" where
  "extractWikiLinkTarget line =
     (let trimmed = trim line in
      case rx_exec rx_wiki_link trimmed of
        Some (pre, ps) \<Rightarrow> Some (last ps)
      | None \<Rightarrow>
          (case rx_exec rx_span_wiki_link trimmed of
             Some (pre, ps) \<Rightarrow> Some (last ps)
           | None \<Rightarrow> None))"

definition targetMatchesHubSuffixPattern :: "string \<Rightarrow> string \<Rightarrow> bool" where
  "targetMatchesHubSuffixPattern target suffix =
     (let s = or_default suffix ''_''
      in RegExp_test (''^.*'' @ escapeRegex s @ [backslash] @ ''d*$'') target)"

definition isHubLinkLine :: "string \<Rightarrow> TFolder option \<Rightarrow> HubSettings \<Rightarrow> bool" where
  "isHubLinkLine line folder s =
     (case extractWikiLinkTarget line of
        None \<Rightarrow> False
      | Some target \<Rightarrow>
          (let suffix = or_default (hubSuffix s) ''_'' in
           case folder of
             None \<Rightarrow>
               if targetMatchesHubSuffixPattern target suffix then True
               else
                 (let prev = (case previousHubSuffix s of None \<Rightarrow> suffix | Some p \<Rightarrow> p)
                  in prev \<noteq> suffix \<and> targetMatchesHubSuffixPattern target prev)
           | Some f \<Rightarrow>
               (let baseName = getHubNameForFolder (folder_name f) suffix;
                    numberedPattern = getNumberedHubPattern (folder_name f) suffix
                in target = baseName \<or> RegExp_test numberedPattern target)))"

definition getCorrectHubLinkForNote :: "Vault \<Rightarrow> TFile \<Rightarrow> HubSettings \<Rightarrow> string option" where
  "getCorrectHubLinkForNote v note s =
     (case file_parent note of
        None \<Rightarrow> None
      | Some folder \<Rightarrow>
          if isRoot folder then None
          else if shouldSkipPath (folder_path folder) (pathSkipFromSettings s) then None
          else
            (case waitForNumberedHub_now v folder s of
               None \<Rightarrow> None
             | Some hub \<Rightarrow> Some (wiki_link (getExpectedHubNameForFolder v folder s))))"

text \<open>
  \<open>stripLeadingHubLinkLines\<close> returns the index after the leading run of blank lines and
  hub-link lines; it does not change the array.
\<close>

fun stripLeadingHubLinkLines :: "string list \<Rightarrow> TFolder option \<Rightarrow> HubSettings \<Rightarrow> nat" where
  "stripLeadingHubLinkLines [] folder s = 0"
| "stripLeadingHubLinkLines (line # lines) folder s =
     (if trim line = [] then 1 + stripLeadingHubLinkLines lines folder s
      else if isHubLinkLine line folder s then 1 + stripLeadingHubLinkLines lines folder s
      else 0)"

definition isHubNote :: "Vault \<Rightarrow> TFile \<Rightarrow> HubSettings \<Rightarrow> bool" where
  "isHubNote v note s =
     (case file_parent note of
        None \<Rightarrow> False
      | Some folder \<Rightarrow>
          if isRoot folder then False
          else basename note = getExpectedHubNameForFolder v folder s)"

definition getCorrectParentLinkForHubNote :: "Vault \<Rightarrow> TFile \<Rightarrow> HubSettings \<Rightarrow> string option" where
  "getCorrectParentLinkForHubNote v note s =
     (case file_parent note of
        None \<Rightarrow> None
      | Some folder \<Rightarrow>
          if isRoot folder then None
          else
            (case folder_parent folder of
               None \<Rightarrow> None
             | Some parent \<Rightarrow>
                 if isRoot parent then None
                 else if shouldSkipPath (folder_path parent) (pathSkipFromSettings s) then None
                 else
                   (let waited = waitForNumberedHub_now v parent s
                    in Some (wiki_link (getExpectedHubNameForFolder v parent s)))))"

text \<open>The index of the first line at or after \<open>j\<close> that is not blank.\<close>

fun skip_blank_lines :: "string list \<Rightarrow> nat" where
  "skip_blank_lines [] = 0"
| "skip_blank_lines (l # ls) = (if trim l = [] then 1 + skip_blank_lines ls else 0)"

definition updateParentLinkUnderDirectory :: "string \<Rightarrow> string option \<Rightarrow> string" where
  "updateParentLinkUnderDirectory content parentLink =
     (let lines = split newline content in
      case findIndex (\<lambda>l. rx_test rx_heading (trim l)) lines of
        None \<Rightarrow> content
      | Some dirIdx \<Rightarrow>
          (let j = dirIdx + 1 + skip_blank_lines (drop (dirIdx + 1) lines);
               hasLink = (j < length lines \<and> extractWikiLinkTarget (lines ! j) \<noteq> None)
           in if hasLink then
                (case parentLink of
                   Some link \<Rightarrow> join newline (lines[j := link])
                 | None \<Rightarrow>
                     (let lines1 = take j lines @ drop (j + 1) lines;
                          lines2 = (if j < length lines1 \<and> trim (lines1 ! j) = []
                                    then take j lines1 @ drop (j + 1) lines1 else lines1)
                      in join newline lines2))
              else
                (case parentLink of
                   Some link \<Rightarrow> join newline (take j lines @ [link, []] @ drop j lines)
                 | None \<Rightarrow> content)))"

text \<open>The leading block that \<open>upsertHubLinkInNote\<close> writes for a link.\<close>

definition hub_link_block :: "HubSettings \<Rightarrow> string \<Rightarrow> bool \<Rightarrow> string" where
  "hub_link_block s correctLink addSeparator =
     (let linkLine =
            (if autoHideHubLinks s
             then ''<span class='' @ [CHR 0x22] @ CSS_CLASS_OB_HIDE @ [CHR 0x22] @ ''>'' @
                  correctLink @ ''</span>''
             else correctLink);
          prefixBlank = (if removeHiddenBlink s then [newline] else [])
      in prefixBlank @ linkLine @ [newline, newline] @
         (if addSeparator then ''---'' @ [newline, newline] else []))"

text \<open>The text that \<open>upsertHubLinkInNote\<close> computes for a note with the given text.\<close>

definition upsert_content :: "Vault \<Rightarrow> TFile \<Rightarrow> HubSettings \<Rightarrow> string \<Rightarrow> string" where
  "upsert_content v note s content =
     (let correctLink = getCorrectHubLinkForNote v note s;
          lines = split newline content;
          afterHub = stripLeadingHubLinkLines lines None s;
          rest0 = join newline (drop afterHub lines);
          rest1 = (if correctLink = None then rx_remove_first rx_separator rest0 else rest0);
          hubNote = isHubNote v note s
      in if hubNote then
           updateParentLinkUnderDirectory rest1 (getCorrectParentLinkForHubNote v note s)
         else
           (let addSeparator = (insertSeparatorAfterHubLink s \<and> \<not> hubNote);
                rest2 = (if correctLink \<noteq> None \<and> addSeparator
                         then rx_remove_first rx_separator rest1 else rest1)
            in case correctLink of
                 None \<Rightarrow> rest2
               | Some link \<Rightarrow> hub_link_block s link addSeparator @ rest2))"

definition upsertHubLinkInNote :: "TFile \<Rightarrow> unit io" where
  "upsertHubLinkInNote note =
     bind_io (vault_read note) (\<lambda>content.
     bind_io (ask (\<lambda>w. upsert_content (w_vault w) note (w_settings w) content)) (\<lambda>newContent.
       if newContent = content then return_io ()
       else bind_io (setWriteLock (file_path note)) (\<lambda>_. vault_modify note newContent)))"

definition removeHubLinkFromNoteIfPresent :: "TFile \<Rightarrow> unit io" where
  "removeHubLinkFromNoteIfPresent note = upsertHubLinkInNote note"

definition buildRefreshHubLinks :: "unit io" where
  "buildRefreshHubLinks =
     bind_io (ask (\<lambda>w. getMarkdownFiles (w_vault w))) (\<lambda>files.
     bind_io (ask (\<lambda>w. pathSkipFromSettings (w_settings w))) (\<lambda>options.
     bind_io
       (foreach files (\<lambda>file.
          case file_parent file of
            Some folder \<Rightarrow>
              if \<not> isRoot folder \<and> shouldSkipPath (folder_path folder) options then return_io ()
              else upsertHubLinkInNote file
          | None \<Rightarrow> upsertHubLinkInNote file))
       (\<lambda>_ w. (Inr (), w\<lparr>w_settings := (w_settings w)\<lparr>previousHubSuffix := Some (hubSuffix (w_settings w))\<rparr>\<rparr>))))"

definition removeAllHubLinksFromNotes :: "unit io" where
  "removeAllHubLinksFromNotes =
     bind_io (ask (\<lambda>w. getMarkdownFiles (w_vault w))) (\<lambda>files.
       foreach files (\<lambda>file.
         bind_io (vault_read file) (\<lambda>content.
         bind_io (ask (\<lambda>w.
             let lines = split newline content;
                 afterHub = stripLeadingHubLinkLines lines None (w_settings w);
                 rest0 = rx_remove_first rx_separator (join newline (drop afterHub lines))
             in if isHubNote (w_vault w) file (w_settings w)
                then updateParentLinkUnderDirectory rest0 None else rest0)) (\<lambda>rest.
           if rest = content then return_io ()
           else bind_io (setWriteLock (file_path file)) (\<lambda>_. vault_modify file rest)))))"

section \<open>Vault event handlers (vaultEvents)\<close>

datatype TAbstractFile = AFile TFile | AFolder TFolder

fun abstract_path :: "TAbstractFile \<Rightarrow> string" where
  "abstract_path (AFile f) = file_path f"
| "abstract_path (AFolder f) = folder_path f"

text \<open>
  \<open>runSuffixMigrationIfNeeded\<close> hands the vault object to \<open>buildRefreshHubNotes\<close>, whose
  parameter is the application object.
\<close>

definition runSuffixMigrationIfNeeded :: "bool io" where
  "runSuffixMigrationIfNeeded =
     bind_io (ask (\<lambda>w. hubSuffix (w_settings w) = previous_or_current (w_settings w))) (\<lambda>same.
       if same then return_io False
       else
         bind_io (buildRefreshHubNotes TheVault) (\<lambda>_.
         bind_io buildRefreshHubLinks (\<lambda>_.
         bind_io saveSettings (\<lambda>_. return_io True))))"

definition getFolderNameFromPath :: "string \<Rightarrow> string" where
  "getFolderNameFromPath path =
     (let segments = filter (\<lambda>seg. seg \<noteq> []) (split (CHR ''/'') (strip_slashes path))
      in if segments = [] then path else last segments)"

text \<open>
  \<open>getMarkdownFilesUnderFolder\<close> walks the folder and its descendant folders. In the
  store these are the markdown files with the folder among their ancestors; they are
  taken in the order of the store.
\<close>

fun folder_within :: "TFolder \<Rightarrow> string \<Rightarrow> bool" where
  "folder_within (TFolder p n parent) q =
     (p = q \<or> (case parent of None \<Rightarrow> False | Some g \<Rightarrow> folder_within g q))"

definition getMarkdownFilesUnderFolder :: "Vault \<Rightarrow> TFolder \<Rightarrow> TFile list" where
  "getMarkdownFilesUnderFolder v folder =
     filter (\<lambda>f. extension f = ''md'' \<and>
                 (case file_parent f of None \<Rightarrow> False | Some g \<Rightarrow> folder_within g (folder_path folder)))
       (map fst (files v))"

definition folder_children :: "Vault \<Rightarrow> TFolder \<Rightarrow> TFolder list" where
  "folder_children v folder =
     filter (\<lambda>g. map_option folder_path (folder_parent g) = Some (folder_path folder)) (allFolders v)"

definition refreshLinksInNotesForFolderName :: "string \<Rightarrow> unit io" where
  "refreshLinksInNotesForFolderName folderName =
     bind_io (ask (\<lambda>w. getFoldersWithSameName (w_vault w) folderName
                          (pathSkipFromSettings (w_settings w)))) (\<lambda>sameName.
       foreach sameName (\<lambda>folder.
         bind_io (ask (\<lambda>w. getMarkdownFilesUnderFolder (w_vault w) folder)) (\<lambda>notes.
           foreach notes upsertHubLinkInNote)))"

definition onFolderCreate :: "TFolder \<Rightarrow> unit io" where
  "onFolderCreate folder =
     bind_io (ask w_settings) (\<lambda>s.
       if \<not> realTimeUpdating s then return_io ()
       else if autoCreateSuppressedUntilBuildRefresh s then return_io ()
       else
         bind_io runSuffixMigrationIfNeeded (\<lambda>migrated.
           if migrated then return_io ()
           else if isRootFolder (folder_path folder) then return_io ()
           else
             bind_io (ask (\<lambda>w. shouldSkipPath (folder_path folder) (pathSkipFromSettings (w_settings w))))
               (\<lambda>skip.
                 if skip then return_io ()
                 else
                   bind_io (ensureHubForFolder folder) (\<lambda>_.
                   bind_io (handleDuplicateFolderNames (folder_name folder)) (\<lambda>_.
                     refreshLinksInNotesForFolderName (folder_name folder))))))"

definition onFolderRename :: "TFolder \<Rightarrow> string \<Rightarrow> unit io" where
  "onFolderRename folder oldPath =
     bind_io (ask w_settings) (\<lambda>s.
       if \<not> realTimeUpdating s then return_io ()
       else if autoCreateSuppressedUntilBuildRefresh s then return_io ()
       else
         bind_io runSuffixMigrationIfNeeded (\<lambda>migrated.
           if migrated then return_io ()
           else if isRootFolder (folder_path folder) then return_io ()
           else
             bind_io (ask (\<lambda>w. shouldSkipPath (folder_path folder) (pathSkipFromSettings (w_settings w))))
               (\<lambda>skip.
                 if skip then return_io ()
                 else
                   (let oldFolderName = getFolderNameFromPath oldPath in
                    bind_io (ask (\<lambda>w. getExpectedHubNameForFolder (w_vault w) folder (w_settings w)))
                      (\<lambda>expectedName.
                    bind_io (ask (\<lambda>w.
                        case findHubInFolder (w_vault w) folder (w_settings w) of
                          Some h \<Rightarrow> Some h
                        | None \<Rightarrow> findHubInFolderWithName (w_vault w) folder oldFolderName (w_settings w)))
                      (\<lambda>hub.
                    bind_io
                      (case hub of
                         None \<Rightarrow> return_io ()
                       | Some h \<Rightarrow>
                           if basename h \<noteq> expectedName then
                             (let newPath = folder_path folder @ ''/'' @ expectedName @ ''.md'' in
                              bind_io (setWriteLock (file_path h)) (\<lambda>_.
                              bind_io (setWriteLock newPath) (\<lambda>_. vault_rename h newPath)))
                           else return_io ())
                      (\<lambda>_.
                    bind_io (handleDuplicateFolderNames oldFolderName) (\<lambda>_.
                    bind_io (handleDuplicateFolderNames (folder_name folder)) (\<lambda>_.
                    bind_io (refreshLinksInNotesForFolderName oldFolderName) (\<lambda>_.
                    bind_io (refreshLinksInNotesForFolderName (folder_name folder)) (\<lambda>_.
                    bind_io (ask (\<lambda>w. findHubInFolder (w_vault w) folder (w_settings w))) (\<lambda>hubAfter.
                    bind_io
                      (case hubAfter of
                         None \<Rightarrow> return_io ()
                       | Some h \<Rightarrow> ensureHubContentUpToDate h folder)
                      (\<lambda>_.
                    bind_io (ask (\<lambda>w. folder_children (w_vault w) folder)) (\<lambda>children.
                    bind_io
                      (foreach children (\<lambda>child.
                         bind_io (ask (\<lambda>w. findHubInFolder (w_vault w) child (w_settings w))) (\<lambda>childHub.
                           case childHub of
                             None \<Rightarrow> return_io ()
                           | Some h \<Rightarrow> ensureHubContentUpToDate h child)))
                      (\<lambda>_.
                    bind_io (ask (\<lambda>w. getMarkdownFilesUnderFolder (w_vault w) folder)) (\<lambda>notes.
                      foreach notes upsertHubLinkInNote))))))))))))))))"

definition onFolderDelete :: "string \<Rightarrow> unit io" where
  "onFolderDelete folderName =
     bind_io (ask w_settings) (\<lambda>s.
       if \<not> realTimeUpdating s then return_io ()
       else if autoCreateSuppressedUntilBuildRefresh s then return_io ()
       else
         bind_io runSuffixMigrationIfNeeded (\<lambda>migrated.
           if migrated then return_io ()
           else
             bind_io (handleDuplicateFolderNames folderName) (\<lambda>_.
               refreshLinksInNotesForFolderName folderName)))"

definition onFileCreate :: "TFile \<Rightarrow> unit io" where
  "onFileCreate file =
     bind_io (ask w_settings) (\<lambda>s.
       if \<not> realTimeUpdating s then return_io ()
       else if autoCreateSuppressedUntilBuildRefresh s then return_io ()
       else
         bind_io runSuffixMigrationIfNeeded (\<lambda>migrated.
           if migrated then return_io ()
           else
             bind_io (isWriteLocked (file_path file)) (\<lambda>locked.
               if locked then return_io ()
               else
                 bind_io (ask (\<lambda>w. shouldSkipPath (file_path file) (pathSkipFromSettings (w_settings w))))
                   (\<lambda>skip.
                     if skip then return_io ()
                     else if extension file \<noteq> ''md'' then return_io ()
                     else upsertHubLinkInNote file))))"

definition onFileRename :: "TFile \<Rightarrow> unit io" where
  "onFileRename file =
     bind_io (ask w_settings) (\<lambda>s.
       if \<not> realTimeUpdating s then return_io ()
       else if autoCreateSuppressedUntilBuildRefresh s then return_io ()
       else
         bind_io runSuffixMigrationIfNeeded (\<lambda>migrated.
           if migrated then return_io ()
           else
             bind_io (isWriteLocked (file_path file)) (\<lambda>locked.
               if locked then return_io ()
               else if extension file \<noteq> ''md'' then return_io ()
               else upsertHubLinkInNote file)))"

text \<open>
  The three handlers that \<open>registerVaultEvents\<close> registers. Each starts its task and
  drops the task's failure. The tasks are given the settings object that the handlers
  captured.
\<close>

definition on_create :: "TAbstractFile \<Rightarrow> World \<Rightarrow> World" where
  "on_create file =
     catch_ignore
       (bind_io (isWriteLocked (abstract_path file)) (\<lambda>locked.
          if locked then return_io ()
          else
            (case file of
               AFolder folder \<Rightarrow> spawn (onFolderCreate folder)
             | AFile f \<Rightarrow> spawn (onFileCreate f))))"

definition on_rename :: "TAbstractFile \<Rightarrow> string \<Rightarrow> World \<Rightarrow> World" where
  "on_rename file oldPath =
     catch_ignore
       (case file of
          AFolder folder \<Rightarrow>
            bind_io (isWriteLocked (folder_path folder)) (\<lambda>lockedNew.
            bind_io (if lockedNew then return_io True else isWriteLocked oldPath) (\<lambda>locked.
              if locked then return_io ()
              else spawn (onFolderRename folder oldPath)))
        | AFile f \<Rightarrow> spawn (onFileRename f))"

definition on_delete :: "TAbstractFile \<Rightarrow> World \<Rightarrow> World" where
  "on_delete file =
     catch_ignore
       (case file of
          AFolder folder \<Rightarrow> spawn (onFolderDelete (folder_name folder))
        | AFile f \<Rightarrow> return_io ())"

section \<open>The plugin (main) and the settings tab\<close>

definition STARTUP_DELAY_MS :: int where
  "STARTUP_DELAY_MS = 2000"

text \<open>
  The methods of the plugin read \<^verbatim>\<open>this.settings\<close> and hand that object to the engine.
  \<open>with_plugin_settings\<close> runs an operation with the object of the field as its settings
  argument; the object that the handlers captured, if it is another one, is not touched
  meanwhile.
\<close>

definition with_plugin_settings :: "unit io \<Rightarrow> unit io" where
  "with_plugin_settings m = (\<lambda>w.
     case w_plugin_settings w of
       None \<Rightarrow> m w
     | Some p \<Rightarrow>
         (case m (w\<lparr>w_settings := p, w_plugin_settings := None\<rparr>) of
            (r, w') \<Rightarrow> (r, w'\<lparr>w_settings := w_settings w, w_plugin_settings := Some (w_settings w')\<rparr>)))"

definition set_settings :: "(HubSettings \<Rightarrow> HubSettings) \<Rightarrow> unit io" where
  "set_settings f = (\<lambda>w. (Inr (), w\<lparr>w_settings := f (w_settings w)\<rparr>))"

definition plugin_buildRefreshHubNotes :: "unit io" where
  "plugin_buildRefreshHubNotes =
     bind_io (set_settings (\<lambda>s. s\<lparr>autoCreateSuppressedUntilBuildRefresh := False\<rparr>)) (\<lambda>_.
     bind_io saveSettings (\<lambda>_.
     bind_io (buildRefreshHubNotes TheApp) (\<lambda>_. saveSettings)))"

definition plugin_buildRefreshHubLinks :: "unit io" where
  "plugin_buildRefreshHubLinks =
     bind_io (set_settings (\<lambda>s. s\<lparr>autoCreateSuppressedUntilBuildRefresh := False\<rparr>)) (\<lambda>_.
     bind_io saveSettings (\<lambda>_.
     bind_io buildRefreshHubLinks (\<lambda>_. saveSettings)))"

definition plugin_removeAllHubNotes :: "unit io" where
  "plugin_removeAllHubNotes =
     bind_io (set_settings (\<lambda>s. s\<lparr>autoCreateSuppressedUntilBuildRefresh := True\<rparr>)) (\<lambda>_.
     bind_io saveSettings (\<lambda>_. removeAllHubNotes TheApp))"

definition plugin_removeAllHubLinks :: "unit io" where
  "plugin_removeAllHubLinks =
     bind_io (set_settings (\<lambda>s. s\<lparr>autoCreateSuppressedUntilBuildRefresh := True\<rparr>)) (\<lambda>_.
     bind_io saveSettings (\<lambda>_. removeAllHubLinksFromNotes))"

text \<open>\<^verbatim>\<open>try { body } finally { cleanup }\<close>.\<close>

definition try_finally :: "unit io \<Rightarrow> unit io \<Rightarrow> unit io" where
  "try_finally body cleanup = (\<lambda>w.
     case body w of
       (Inl e, w') \<Rightarrow> (case cleanup w' of (Inl e', w'') \<Rightarrow> (Inl e', w'') | (Inr u, w'') \<Rightarrow> (Inl e, w''))
     | (Inr u, w') \<Rightarrow> cleanup w')"

definition runStartupRefresh :: "unit io" where
  "runStartupRefresh =
     bind_io (ask (\<lambda>w. realTimeUpdating (w_settings w))) (\<lambda>wasRealTime.
     bind_io (set_settings (\<lambda>s. s\<lparr>realTimeUpdating := False\<rparr>)) (\<lambda>_.
       try_finally
         (bind_io (buildRefreshHubNotes TheApp) (\<lambda>_.
          bind_io saveSettings (\<lambda>_. buildRefreshHubLinks)))
         (bind_io (set_settings (\<lambda>s. s\<lparr>realTimeUpdating := wasRealTime\<rparr>)) (\<lambda>_. saveSettings))))"

text \<open>
  \<open>loadSettings\<close> makes a new settings object from the defaults and the data file and
  assigns it to the field of the plugin. A complete object in the data file overrides
  every default; a \<open>previousHubSuffix\<close> that is absent there takes the default. Without a
  data file the excluded folder names are the configuration folder and the two defaults.
\<close>

definition loadSettings :: "unit io" where
  "loadSettings = (\<lambda>w.
     (Inr (),
      w\<lparr>w_plugin_settings := Some
          (case w_saved w of
             None \<Rightarrow> DEFAULT_SETTINGS\<lparr>skipFolderNames := [w_configDir w, ''.trash'', ''ATTACHMENTS'']\<rparr>
           | Some d \<Rightarrow>
               (case previousHubSuffix d of
                  None \<Rightarrow> d\<lparr>previousHubSuffix := previousHubSuffix DEFAULT_SETTINGS\<rparr>
                | Some p \<Rightarrow> d))\<rparr>))"

text \<open>
  \<open>registerVaultEvents\<close> starts with \<^verbatim>\<open>const settings = plugin.settings\<close>: from then on the
  handlers hold the object that the field refers to at this moment.
\<close>

definition registerVaultEvents :: "unit io" where
  "registerVaultEvents = (\<lambda>w. (Inr (), w\<lparr>w_settings := plugin_settings w, w_plugin_settings := None\<rparr>))"

text \<open>
  \<open>onload\<close>: the settings are loaded, the handlers are registered, and the startup pass
  is scheduled \<open>STARTUP_DELAY_MS\<close> ahead when live updating is on and the suppression flag
  is off. The flag is read here, when the timer is set.
\<close>

definition onload :: "unit io" where
  "onload =
     bind_io loadSettings (\<lambda>_.
     bind_io registerVaultEvents (\<lambda>_.
     bind_io (ask plugin_settings) (\<lambda>s.
       if realTimeUpdating s \<and> \<not> autoCreateSuppressedUntilBuildRefresh s
       then (\<lambda>w. (Inr (), w\<lparr>w_startup_due := Some (w_clock w + STARTUP_DELAY_MS)\<rparr>))
       else return_io ())))"

text \<open>
  The timer of the startup pass: when it is due it calls \<open>runStartupRefresh\<close>, which
  does not read the suppression flag.
\<close>

definition startup_timer :: "World \<Rightarrow> World" where
  "startup_timer w =
     (case w_startup_due w of
        None \<Rightarrow> w
      | Some t \<Rightarrow>
          if w_clock w < t then w
          else catch_ignore (with_plugin_settings runStartupRefresh) (w\<lparr>w_startup_due := None\<rparr>))"

text \<open>
  The button \<^verbatim>\<open>Restore to default\<close> of the settings tab assigns a new object to the field
  of the plugin and saves it.
\<close>

definition restoreToDefault :: "unit io" where
  "restoreToDefault =
     bind_io
       (\<lambda>w. (Inr (),
          w\<lparr>w_plugin_settings := Some
              (DEFAULT_SETTINGS\<lparr>skipFolderNames := [w_configDir w, ''.trash'', ''ATTACHMENTS'']\<rparr>)\<rparr>))
       (\<lambda>_. saveSettings)"

text \<open>
  The suffix field of the settings tab: pressing Enter saves the pending suffix. Nothing
  happens when it is the current suffix; otherwise the current suffix is recorded as the
  previous one, the pending suffix becomes the current one, and the settings are saved.
  The input handler of the field has replaced an empty text by the underscore.
\<close>

definition saveSuffix :: "string \<Rightarrow> unit io" where
  "saveSuffix pendingSuffix =
     bind_io (ask (\<lambda>w. hubSuffix (w_settings w))) (\<lambda>current.
       if pendingSuffix = current then return_io ()
       else
         bind_io (set_settings (\<lambda>s. s\<lparr>previousHubSuffix := Some (hubSuffix s)\<rparr>)) (\<lambda>_.
         bind_io (set_settings (\<lambda>s. s\<lparr>hubSuffix := pendingSuffix\<rparr>)) (\<lambda>_. saveSettings)))"

text \<open>
  What can happen to the plugin, and the step each event takes. A plugin that is loaded
  again has been unloaded before, which clears its timer.
\<close>

datatype plugin_event =
    Onload
  | StartupTimer
  | NotifyCreate TAbstractFile
  | NotifyRename TAbstractFile string
  | NotifyDelete TAbstractFile
  | CommandBuildRefreshHubNotes
  | CommandBuildRefreshHubLinks
  | CommandRemoveAllHubNotes
  | CommandRemoveAllHubLinks
  | RestoreToDefault
  | SettingsSaveSuffix string
  | TimePasses nat

fun plugin_step :: "plugin_event \<Rightarrow> World \<Rightarrow> World" where
  "plugin_step Onload w = catch_ignore onload (w\<lparr>w_startup_due := None\<rparr>)"
| "plugin_step StartupTimer w = startup_timer w"
| "plugin_step (NotifyCreate file) w = on_create file w"
| "plugin_step (NotifyRename file oldPath) w = on_rename file oldPath w"
| "plugin_step (NotifyDelete file) w = on_delete file w"
| "plugin_step CommandBuildRefreshHubNotes w = catch_ignore (with_plugin_settings plugin_buildRefreshHubNotes) w"
| "plugin_step CommandBuildRefreshHubLinks w = catch_ignore (with_plugin_settings plugin_buildRefreshHubLinks) w"
| "plugin_step CommandRemoveAllHubNotes w = catch_ignore (with_plugin_settings plugin_removeAllHubNotes) w"
| "plugin_step CommandRemoveAllHubLinks w = catch_ignore (with_plugin_settings plugin_removeAllHubLinks) w"
| "plugin_step RestoreToDefault w = catch_ignore restoreToDefault w"
| "plugin_step (SettingsSaveSuffix pendingSuffix) w =
     catch_ignore (with_plugin_settings (saveSuffix (or_default pendingSuffix ''_''))) w"
| "plugin_step (TimePasses ms) w = w\<lparr>w_clock := w_clock w + int ms\<rparr>"

section \<open>Notions used in the statements about the engine\<close>

text \<open>An operation leaves a component of the world as it is, also when it fails.\<close>

definition preserves :: "(World \<Rightarrow> 'b) \<Rightarrow> 'a io \<Rightarrow> bool" where
  "preserves g m = (\<forall>w. g (snd (m w)) = g w)"

text \<open>The settings apart from the field \<open>previousHubSuffix\<close>.\<close>

definition settings_but_previous :: "World \<Rightarrow> HubSettings" where
  "settings_but_previous w = (w_settings w)\<lparr>previousHubSuffix := None\<rparr>"



text \<open>An operation only appends to the trace of storage operations.\<close>

definition grows :: "'a io \<Rightarrow> bool" where
  "grows m = (\<forall>w. \<exists>ys. w_writes (snd (m w)) = w_writes w @ ys)"

text \<open>
  Every file of the list is still in the store, or its removal is among the storage
  operations after the first \<open>n\<close>.
\<close>

definition kept_or_trashed :: "nat \<Rightarrow> TFile list \<Rightarrow> World \<Rightarrow> bool" where
  "kept_or_trashed n fs u =
     (n \<le> length (w_writes u) \<and>
      (\<forall>f \<in> set fs. f \<in> fst ` set (files (w_vault u)) \<or> Trash (file_path f) \<in> set (drop n (w_writes u))))"

text \<open>The plugin after a sequence of events, the first event first.\<close>

definition run_events :: "plugin_event list \<Rightarrow> World \<Rightarrow> World" where
  "run_events evs w = fold plugin_step evs w"

text \<open>A path is write-locked at the time of the world.\<close>

definition locked_now :: "World \<Rightarrow> string \<Rightarrow> bool" where
  "locked_now w p = (case map_of (w_locks w) p of None \<Rightarrow> False | Some t \<Rightarrow> w_clock w - t < WRITE_LOCK_MS)"

text \<open>Two worlds that differ at most in the write-lock table.\<close>

definition same_but_locks :: "World \<Rightarrow> World \<Rightarrow> bool" where
  "same_but_locks w w' = (w_vault w' = w_vault w \<and> w_settings w' = w_settings w \<and>
     w_saved w' = w_saved w \<and> w_writes w' = w_writes w \<and> w_clock w' = w_clock w \<and>
     w_plugin_settings w' = w_plugin_settings w \<and> w_startup_due w' = w_startup_due w \<and>
     w_configDir w' = w_configDir w)"

text \<open>
  An operation does not read the write-lock table: started with another table, it has
  the same result and leaves the same world but for the table.
\<close>

definition lock_blind :: "'a io \<Rightarrow> bool" where
  "lock_blind m =
     (\<forall>w l. fst (m (w\<lparr>w_locks := l\<rparr>)) = fst (m w) \<and>
            same_but_locks (snd (m w)) (snd (m (w\<lparr>w_locks := l\<rparr>))))"

text \<open>The text that an item of a pattern may take.\<close>

fun piece_ok :: "item \<Rightarrow> string \<Rightarrow> bool" where
  "piece_ok Eol p = (p = [])"
| "piece_ok (Atom c q) p =
     (list_all (cmatch c) p \<and> quant_min q \<le> length p \<and>
      (case q of One \<Rightarrow> length p \<le> 1 | Opt \<Rightarrow> length p \<le> 1 | Star \<Rightarrow> True | Plus \<Rightarrow> True))"

text \<open>The stored text of a file, looked up by its path as \<open>vault_read\<close> does.\<close>

definition content_of :: "Vault \<Rightarrow> string \<Rightarrow> string option" where
  "content_of v p = map_of (map (\<lambda>(f, c). (file_path f, c)) (files v)) p"

text \<open>
  The test by which \<open>findHubInFolderWithName\<close> and \<open>deleteAllHubFilesWithSuffix\<close>
  recognise a hub of a folder name: the undecorated or a numbered hub name.
\<close>

definition is_hub_name :: "string \<Rightarrow> string \<Rightarrow> string \<Rightarrow> bool" where
  "is_hub_name folderName suffix b =
     (b = getHubNameForFolder folderName suffix \<or>
      RegExp_test (getNumberedHubPattern folderName suffix) b)"

text \<open>The children of a folder that carry a hub name of the folder for the current suffix.\<close>

definition hub_candidates :: "Vault \<Rightarrow> HubSettings \<Rightarrow> TFolder \<Rightarrow> TFile list" where
  "hub_candidates v s folder =
     filter (\<lambda>c. is_hub_name (folder_name folder) (or_default (hubSuffix s) ''_'') (basename c))
       (file_children v folder)"

text \<open>
  A well-formed store: a path names one folder, a folder name holds no slash, and the
  parent of a file is the folder that the path of the file names.
\<close>

definition wf_file :: "TFile \<Rightarrow> bool" where
  "wf_file f = (map_option folder_path (file_parent f) = Some (path_dir (file_path f)))"

definition wf_vault :: "Vault \<Rightarrow> bool" where
  "wf_vault v =
     (distinct (map folder_path (allFolders v)) \<and>
      list_all (\<lambda>folder. CHR ''/'' \<notin> set (folder_name folder)) (allFolders v) \<and>
      list_all (\<lambda>fc. wf_file (fst fc)) (files v))"

text \<open>No folder holds two files that carry a hub name of the folder.\<close>

definition at_most_one_hub :: "Vault \<Rightarrow> HubSettings \<Rightarrow> bool" where
  "at_most_one_hub v s = list_all (\<lambda>folder. length (hub_candidates v s folder) \<le> 1) (allFolders v)"

text \<open>The entries of the store that lie in the folder with the given path.\<close>

definition folder_files :: "Vault \<Rightarrow> string \<Rightarrow> (TFile \<times> string) list" where
  "folder_files v p = filter (\<lambda>fc. path_dir (file_path (fst fc)) = p) (files v)"

text \<open>
  The hub of a folder is settled: the folder has one hub candidate, which holds the text
  that \<open>buildHubContent\<close> builds, and which has the given name if one is given.
\<close>

definition hub_settled :: "Vault \<Rightarrow> HubSettings \<Rightarrow> TFolder \<Rightarrow> string option \<Rightarrow> bool" where
  "hub_settled v s folder name =
     (case hub_candidates v s folder of
        [h] \<Rightarrow>
          content_of v (file_path h) = Some (buildHubContent v folder s) \<and>
          (case name of None \<Rightarrow> True | Some n \<Rightarrow> basename h = n)
      | _ \<Rightarrow> False)"

text \<open>
  A step that leaves the folders, the creation times and the settings as they are, keeps
  the files well-formed, and changes no entry outside the folder with the path \<open>g\<close>.
\<close>

definition only_touches :: "string \<Rightarrow> World \<Rightarrow> World \<Rightarrow> bool" where
  "only_touches g w w' =
     (allFolders (w_vault w') = allFolders (w_vault w) \<and> stats (w_vault w') = stats (w_vault w) \<and>
      w_settings w' = w_settings w \<and> w_saved w' = w_saved w \<and> w_clock w' = w_clock w \<and>
      (list_all (\<lambda>fc. wf_file (fst fc)) (files (w_vault w)) \<longrightarrow>
         list_all (\<lambda>fc. wf_file (fst fc)) (files (w_vault w'))) \<and>
      (\<forall>p. p \<noteq> g \<longrightarrow> folder_files (w_vault w') p = folder_files (w_vault w) p))"

section \<open>Example worlds\<close>

definition top_folder :: "string \<Rightarrow> TFolder" where
  "top_folder d = TFolder d d (Some root_folder)"

text \<open>The default settings with live updating no longer suppressed.\<close>

definition live_settings :: HubSettings where
  "live_settings = DEFAULT_SETTINGS\<lparr>autoCreateSuppressedUntilBuildRefresh := False\<rparr>"

definition world_of :: "Vault \<Rightarrow> HubSettings \<Rightarrow> (string \<times> int) list \<Rightarrow> int \<Rightarrow> World" where
  "world_of v s l t =
     \<lparr>w_vault = v, w_settings = s, w_saved = Some s, w_locks = l, w_clock = t, w_writes = [],
      w_plugin_settings = None, w_startup_due = None, w_configDir = ''.obsidian''\<rparr>"



text \<open>The folder \<^verbatim>\<open>b\<close> with its hub and one note with the given text.\<close>

definition world_with_note :: "string \<Rightarrow> World" where
  "world_with_note text =
     world_of
       \<lparr>allFolders = [top_folder ''b''],
        files = [(md_file (top_folder ''b'') ''b_'', []), (md_file (top_folder ''b'') ''n'', text)],
        stats = []\<rparr>
       live_settings [] 1000"


text \<open>
  The folder \<^verbatim>\<open>b\<close> with its hub and a note, and the folder \<^verbatim>\<open>c\<close> that has no hub yet.
  The data file holds the settings with the suppression flag off.
\<close>

definition world_with_new_folder :: World where
  "world_with_new_folder =
     world_of
       \<lparr>allFolders = [top_folder ''b'', top_folder ''c''],
        files = [(md_file (top_folder ''b'') ''b_'', []), (md_file (top_folder ''b'') ''n'', ''hello'')],
        stats = []\<rparr>
       live_settings [] 1000"


section \<open>Properties of the regular-expression fragment\<close>

lemma or_default_nonempty: "or_default s ''_'' \<noteq> []"
  by (simp add: or_default_def)

lemma rx_items_Nil: "rx_items [] s = Some []"
  by simp

lemma rx_items_Eol:
  "rx_items (Eol # r) s = (if s = [] then map_option (\<lambda>ps. [] # ps) (rx_items r s) else None)"
  by simp

lemma rx_items_Atom:
  "rx_items (Atom c q # r) s =
     (let n = length (takeWhile (cmatch c) s) in
      if quant_max q n < quant_min q then None
      else rx_try (rx_items r) s (quant_min q) (quant_max q n))"
  by simp

lemma rx_try_same: "rx_try cont s k k = (case cont (drop k s) of Some ps \<Rightarrow> Some (take k s # ps) | None \<Rightarrow> None)"
  by (subst rx_try.simps) (simp split: option.splits)

lemma rx_items_Lit_One:
  "rx_items (Atom (Lit a) One # r) s =
     (case s of [] \<Rightarrow> None | c # cs \<Rightarrow> if c = a then map_option (\<lambda>ps. [a] # ps) (rx_items r cs) else None)"
  by (cases s) (auto simp: quant_max_def quant_min_def rx_try_same Let_def split: option.splits)

lemma rx_items_lits:
  "rx_items (lits xs @ r) s =
     (if take (length xs) s = xs
      then map_option (\<lambda>ps. map (\<lambda>c. [c]) xs @ ps) (rx_items r (drop (length xs) s))
      else None)"
proof (induction xs arbitrary: s)
  case Nil
  have "map_option ((@) []) (rx_items r s) = rx_items r s" by (cases "rx_items r s") auto
  then show ?case by (simp add: lits_def)
next
  case (Cons a xs)
  have "lits (a # xs) @ r = Atom (Lit a) One # (lits xs @ r)" by (simp add: lits_def)
  then show ?case
    using Cons.IH by (cases s) (auto simp: rx_items_Lit_One option.map_comp comp_def simp del: rx_items.simps)
qed

lemma rx_try_None:
  "lo \<le> k \<Longrightarrow> rx_try cont s lo k = None \<longleftrightarrow> (\<forall>j. lo \<le> j \<and> j \<le> k \<longrightarrow> cont (drop j s) = None)"
proof (induction cont s lo k rule: rx_try.induct)
  case (1 cont s lo k)
  show ?case
  proof (cases "cont (drop k s)")
    case (Some ps)
    then show ?thesis using "1.prems" by (subst rx_try.simps) auto
  next
    case None
    show ?thesis
    proof (cases "k \<le> lo")
      case True
      then have "k = lo" using "1.prems" by simp
      then show ?thesis using None by (subst rx_try.simps) auto
    next
      case False
      then have IH: "rx_try cont s lo (k - 1) = None \<longleftrightarrow> (\<forall>j. lo \<le> j \<and> j \<le> k - 1 \<longrightarrow> cont (drop j s) = None)"
        using "1.IH" [OF None False] "1.prems" by simp
      have "(\<forall>j. lo \<le> j \<and> j \<le> k \<longrightarrow> cont (drop j s) = None) \<longleftrightarrow> (\<forall>j. lo \<le> j \<and> j \<le> k - 1 \<longrightarrow> cont (drop j s) = None)"
      proof (intro iffI allI impI)
        fix j
        assume "\<forall>j. lo \<le> j \<and> j \<le> k \<longrightarrow> cont (drop j s) = None" and "lo \<le> j \<and> j \<le> k - 1"
        then show "cont (drop j s) = None" by (meson diff_le_self le_trans)
      next
        fix j
        assume h: "\<forall>j. lo \<le> j \<and> j \<le> k - 1 \<longrightarrow> cont (drop j s) = None" and j: "lo \<le> j \<and> j \<le> k"
        show "cont (drop j s) = None"
        proof (cases "j = k")
          case True
          then show ?thesis using None by simp
        next
          case False
          then have "j \<le> k - 1" using j by linarith
          then show ?thesis using h j by blast
        qed
      qed
      then show ?thesis using None False IH by (subst rx_try.simps) simp
    qed
  qed
qed

lemma rx_items_Digit_Plus_Eol:
  "rx_items [Atom Digit Plus, Eol] s = (if s \<noteq> [] \<and> list_all is_digit s then Some [s, []] else None)"
proof (cases "s \<noteq> [] \<and> list_all is_digit s")
  case True
  then have n: "takeWhile is_digit s = s" by (simp add: list_all_iff)
  have cm: "cmatch Digit = is_digit" by (rule ext) simp
  have l: "1 \<le> length s" using True by (cases s) auto
  have "rx_try (rx_items [Eol]) s 1 (length s) = Some [s, []]"
    by (subst rx_try.simps) simp
  moreover have "s \<noteq> []" using True by simp
  ultimately show ?thesis using True
    by (simp add: rx_items_Atom quant_max_def quant_min_def cm n Let_def del: rx_items.simps)
next
  case False
  let ?n = "length (takeWhile (cmatch Digit) s)"
  have cm: "cmatch Digit = is_digit" by (rule ext) simp
  show ?thesis
  proof (cases "?n < 1")
    case True
    then show ?thesis using False by (simp add: quant_max_def quant_min_def Let_def)
  next
    case n1: False
    have "s \<noteq> []" using n1 by auto
    then have nd: "\<not> list_all is_digit s" using False by simp
    then have "takeWhile is_digit s \<noteq> s" by (metis list_all_iff set_takeWhileD)
    then have lt: "?n < length s" unfolding cm
      by (metis length_takeWhile_le le_neq_implies_less takeWhile_eq_all_conv takeWhile_eq_take take_all_iff nat_less_le)
    have "1 \<le> ?n" using n1 by linarith
    then have "rx_try (rx_items [Eol]) s 1 ?n = None"
      using lt by (subst rx_try_None) auto
    then show ?thesis using n1 nd \<open>s \<noteq> []\<close>
      by (simp add: rx_items_Atom quant_max_def quant_min_def Let_def del: rx_items.simps)
  qed
qed

subsection \<open>Patterns built from escaped text\<close>

definition no_quant_head :: "string \<Rightarrow> bool" where
  "no_quant_head s = (case s of [] \<Rightarrow> True | c # cs \<Rightarrow> c \<noteq> CHR ''*'' \<and> c \<noteq> CHR ''+'' \<and> c \<noteq> CHR ''?'')"

lemma parse_quant_no_quant_head: "no_quant_head s \<Longrightarrow> parse_quant s = (One, s)"
  by (auto simp: no_quant_head_def parse_quant_def split: list.splits)

lemma no_quant_head_escapeRegex:
  "no_quant_head rest \<Longrightarrow> no_quant_head (escapeRegex xs @ rest)"
  by (cases xs) (auto simp: no_quant_head_def escapeRegex_def syntax_chars_def backslash_def)

lemma escapeRegex_append: "escapeRegex (xs @ ys) = escapeRegex xs @ escapeRegex ys"
  by (simp add: escapeRegex_def)

lemma escapeRegex_Cons:
  "escapeRegex (c # xs) = (if c \<in> set syntax_chars then [backslash, c] else [c]) @ escapeRegex xs"
  by (simp add: escapeRegex_def)

lemma escape_class_syntax: "c \<in> set syntax_chars \<Longrightarrow> escape_class c = Some (Lit c)"
  by (auto simp: escape_class_def syntax_chars_def backslash_def)

lemma parse_items_escapeRegex:
  "no_quant_head rest \<Longrightarrow>
   parse_items (escapeRegex xs @ rest) = map_option (\<lambda>r. lits xs @ r) (parse_items rest)"
proof (induction xs)
  case Nil
  show ?case by (cases "parse_items rest") (simp_all add: escapeRegex_def lits_def)
next
  case (Cons c xs)
  let ?tail = "escapeRegex xs @ rest"
  have q: "parse_quant ?tail = (One, ?tail)"
    using Cons.prems by (simp add: parse_quant_no_quant_head no_quant_head_escapeRegex)
  have l: "lits (c # xs) @ r = Atom (Lit c) One # (lits xs @ r)" for r
    by (simp add: lits_def)
  show ?case
  proof (cases "c \<in> set syntax_chars")
    case True
    have "parse_items (backslash # c # ?tail) =
            map_option (\<lambda>r. Atom (Lit c) One # r) (parse_items ?tail)"
      using True q by (simp add: escape_class_syntax backslash_def)
    then show ?thesis
      using True Cons.IH [OF Cons.prems]
      by (simp add: escapeRegex_Cons l option.map_comp comp_def)
  next
    case False
    then have ne: "c \<noteq> CHR ''$''" "c \<noteq> backslash" "c \<noteq> CHR ''.''"
      by (auto simp: syntax_chars_def)
    have "parse_items (c # ?tail) = map_option (\<lambda>r. Atom (Lit c) One # r) (parse_items ?tail)"
      using False ne q by simp
    then show ?thesis
      using False Cons.IH [OF Cons.prems]
      by (simp add: escapeRegex_Cons l option.map_comp comp_def)
  qed
qed

lemma parse_items_digits_tail:
  "parse_items ([backslash] @ ''d+$'') = Some [Atom Digit Plus, Eol]"
  by (simp add: backslash_def escape_class_def parse_quant_def)

lemma RegExp_getNumberedHubPattern:
  "RegExp (getNumberedHubPattern folderName suffix) =
     Some \<lparr>anchored = True,
            items = lits (folderName @ or_default suffix ''_'') @ [Atom Digit Plus, Eol]\<rparr>"
proof -
  let ?rest = "[backslash] @ ''d+$''"
  have nq: "no_quant_head ?rest" by (simp add: no_quant_head_def backslash_def)
  have "getNumberedHubPattern folderName suffix =
          CHR ''^'' # (escapeRegex (folderName @ or_default suffix ''_'') @ ?rest)"
    by (simp add: getNumberedHubPattern_def escapeRegex_append)
  moreover have "parse_items (escapeRegex (folderName @ or_default suffix ''_'') @ ?rest) =
          Some (lits (folderName @ or_default suffix ''_'') @ [Atom Digit Plus, Eol])"
    using parse_items_escapeRegex [OF nq] parse_items_digits_tail by simp
  ultimately show ?thesis by (simp add: RegExp_def)
qed

lemma RegExp_test_getNumberedHubPattern:
  "RegExp_test (getNumberedHubPattern folderName suffix) str \<longleftrightarrow>
     (\<exists>ds. ds \<noteq> [] \<and> list_all is_digit ds \<and> str = folderName @ or_default suffix ''_'' @ ds)"
proof -
  let ?p = "folderName @ or_default suffix ''_''"
  have "RegExp_test (getNumberedHubPattern folderName suffix) str \<longleftrightarrow>
          rx_items (lits ?p @ [Atom Digit Plus, Eol]) str \<noteq> None"
    by (simp add: RegExp_test_def RegExp_getNumberedHubPattern rx_test_def rx_exec_def)
  also have "\<dots> \<longleftrightarrow> take (length ?p) str = ?p \<and>
       drop (length ?p) str \<noteq> [] \<and> list_all is_digit (drop (length ?p) str)"
    by (simp add: rx_items_lits rx_items_Digit_Plus_Eol del: rx_items.simps)
  also have "\<dots> \<longleftrightarrow> (\<exists>ds. ds \<noteq> [] \<and> list_all is_digit ds \<and> str = ?p @ ds)"
  proof
    assume h: "take (length ?p) str = ?p \<and>
       drop (length ?p) str \<noteq> [] \<and> list_all is_digit (drop (length ?p) str)"
    then have "str = ?p @ drop (length ?p) str" by (metis append_take_drop_id)
    then show "\<exists>ds. ds \<noteq> [] \<and> list_all is_digit ds \<and> str = ?p @ ds" using h by blast
  next
    assume "\<exists>ds. ds \<noteq> [] \<and> list_all is_digit ds \<and> str = ?p @ ds"
    then show "take (length ?p) str = ?p \<and>
       drop (length ?p) str \<noteq> [] \<and> list_all is_digit (drop (length ?p) str)" by auto
  qed
  finally show ?thesis by simp
qed

section \<open>Hub names and the numbered-hub pattern\<close>

text \<open>
  C10. An empty suffix falls back to the underscore: with the empty suffix,
  \<open>getHubNameForFolder\<close>, \<open>getNumberedHubName\<close> and \<open>getNumberedHubPattern\<close> return what
  they return for the suffix \<^verbatim>\<open>_\<close>, and for no suffix at all is a hub name (undecorated
  or numbered) the bare folder name.
\<close>

theorem empty_suffix_falls_back_to_underscore:
  "getHubNameForFolder folderName [] = getHubNameForFolder folderName ''_'' \<and>
   getNumberedHubName folderName index [] = getNumberedHubName folderName index ''_'' \<and>
   getNumberedHubPattern folderName [] = getNumberedHubPattern folderName ''_'' \<and>
   getHubNameForFolder folderName suffix \<noteq> folderName \<and>
   getNumberedHubName folderName index suffix \<noteq> folderName"
  by (simp add: getHubNameForFolder_def getNumberedHubName_def getNumberedHubPattern_def
      or_default_def)

theorem empty_suffix_falls_back_to_underscore_witness:
  "getHubNameForFolder ''Notes'' [] = ''Notes_'' \<and>
   getNumberedHubName ''Notes'' 2 [] = ''Notes_2'' \<and>
   getNumberedHubPattern ''Notes'' [] = getNumberedHubPattern ''Notes'' ''_''"
  using empty_suffix_falls_back_to_underscore [of "''Notes''" 2 "[]"]
  by (simp add: getHubNameForFolder_def getNumberedHubName_def or_default_def
      String_of_nat.simps digit_char_def)

text \<open>
  C9, as the code has it. The pattern of \<open>getNumberedHubPattern\<close> is inside the
  fragment and matches a string exactly when the string is the folder name, then the
  suffix (the underscore when the suffix is empty), then one or more digits; every
  character of the folder name and of the suffix stands for itself. The pattern never
  matches the undecorated hub name of the same folder name and suffix.
\<close>

theorem numbered_pattern_matches_exactly_numbered_names:
  "RegExp (getNumberedHubPattern folderName suffix) \<noteq> None \<and>
   (RegExp_test (getNumberedHubPattern folderName suffix) str \<longleftrightarrow>
      (\<exists>ds. ds \<noteq> [] \<and> list_all is_digit ds \<and> str = folderName @ or_default suffix ''_'' @ ds)) \<and>
   (suffix \<noteq> [] \<longrightarrow>
      (RegExp_test (getNumberedHubPattern folderName suffix) str \<longleftrightarrow>
        (\<exists>ds. ds \<noteq> [] \<and> list_all is_digit ds \<and> str = folderName @ suffix @ ds))) \<and>
   \<not> RegExp_test (getNumberedHubPattern folderName suffix) (getHubNameForFolder folderName suffix)"
proof -
  have "\<not> RegExp_test (getNumberedHubPattern folderName suffix) (getHubNameForFolder folderName suffix)"
    by (simp add: RegExp_test_getNumberedHubPattern getHubNameForFolder_def or_default_nonempty)
  moreover have "suffix \<noteq> [] \<longrightarrow> or_default suffix ''_'' = suffix"
    by (simp add: or_default_def)
  ultimately show ?thesis
    using RegExp_test_getNumberedHubPattern [of folderName suffix str]
    by (auto simp: RegExp_getNumberedHubPattern)
qed

theorem numbered_pattern_witness:
  "RegExp_test (getNumberedHubPattern ''My.Folder'' ''--'') ''My.Folder--12'' \<and>
   \<not> RegExp_test (getNumberedHubPattern ''My.Folder'' ''--'') ''MyxFolder--12'' \<and>
   \<not> RegExp_test (getNumberedHubPattern ''My.Folder'' ''--'') ''My.Folder--''"
proof -
  have ne: "''--'' \<noteq> ([] :: string)" by simp
  have d: "list_all is_digit ''12''" by (simp add: is_digit_def)
  have "\<exists>ds. ds \<noteq> [] \<and> list_all is_digit ds \<and> ''My.Folder--12'' = ''My.Folder'' @ ''--'' @ ds"
    using d by (intro exI [of _ "''12''"]) simp
  moreover have "\<not> (\<exists>ds. ds \<noteq> [] \<and> list_all is_digit ds \<and> ''MyxFolder--12'' = ''My.Folder'' @ ''--'' @ ds)"
    by simp
  moreover have "getHubNameForFolder ''My.Folder'' ''--'' = ''My.Folder--''"
    by (simp add: getHubNameForFolder_def or_default_def)
  ultimately show ?thesis
    using numbered_pattern_matches_exactly_numbered_names [of "''My.Folder''" "''--''" "''My.Folder--12''"]
      numbered_pattern_matches_exactly_numbered_names [of "''My.Folder''" "''--''" "''MyxFolder--12''"]
      ne
    by metis
qed

text \<open>
  C9 as stated fails at the empty suffix: the pattern for the folder name \<^verbatim>\<open>X\<close> and the
  empty suffix rejects \<^verbatim>\<open>X1\<close> (the folder name, the empty suffix, one digit) and accepts
  \<^verbatim>\<open>X_1\<close>.
\<close>

theorem numbered_pattern_empty_suffix_counterexample:
  "\<not> RegExp_test (getNumberedHubPattern ''X'' []) (''X'' @ [] @ ''1'') \<and>
   RegExp_test (getNumberedHubPattern ''X'' []) ''X_1''"
proof -
  have "list_all is_digit ''1''" by (simp add: is_digit_def)
  then have "\<exists>ds. ds \<noteq> [] \<and> list_all is_digit ds \<and> ''X_1'' = ''X'' @ or_default [] ''_'' @ ds"
    by (intro exI [of _ "''1''"]) (simp add: or_default_def)
  moreover have "\<not> (\<exists>ds. ds \<noteq> [] \<and> list_all is_digit ds \<and> ''X'' @ [] @ ''1'' = ''X'' @ or_default [] ''_'' @ ds)"
    by (simp add: or_default_def)
  ultimately show ?thesis
    unfolding RegExp_test_getNumberedHubPattern by blast
qed

subsection \<open>What a match takes\<close>

lemma rx_try_Some:
  "rx_try cont s lo k = Some r \<Longrightarrow>
     \<exists>j ps. j \<le> k \<and> (lo \<le> j \<or> j = k) \<and> cont (drop j s) = Some ps \<and> r = take j s # ps"
proof (induction cont s lo k rule: rx_try.induct)
  case (1 cont s lo k)
  show ?case
  proof (cases "cont (drop k s)")
    case (Some ps)
    then have "r = take k s # ps" using "1.prems" by (subst (asm) rx_try.simps) simp
    then show ?thesis using Some by blast
  next
    case None
    then have nk: "\<not> k \<le> lo" and rec: "rx_try cont s lo (k - 1) = Some r"
      using "1.prems" by (subst (asm) rx_try.simps, simp split: if_splits)+
    from "1.IH" [OF None nk rec] obtain j ps where
      j: "j \<le> k - 1" "lo \<le> j \<or> j = k - 1" "cont (drop j s) = Some ps" "r = take j s # ps" by blast
    have "lo \<le> j" using j(2) nk by auto
    then show ?thesis using j by (intro exI [of _ j] exI [of _ ps]) auto
  qed
qed

lemma rx_items_sound:
  "rx_items its s = Some ps \<Longrightarrow> list_all2 piece_ok its ps \<and> (\<exists>r. s = concat ps @ r)"
proof (induction its arbitrary: s ps)
  case Nil
  then show ?case by simp
next
  case (Cons it its)
  show ?case
  proof (cases it)
    case Eol
    then obtain qs where qs: "s = []" "rx_items its [] = Some qs" "ps = [] # qs"
      using Cons.prems by (auto simp: rx_items_Eol simp del: rx_items.simps split: if_splits)
    then show ?thesis using Cons.IH [OF qs(2)] Eol by simp
  next
    case (Atom c q)
    let ?n = "length (takeWhile (cmatch c) s)"
    have ok: "\<not> quant_max q ?n < quant_min q"
      and t: "rx_try (rx_items its) s (quant_min q) (quant_max q ?n) = Some ps"
      using Cons.prems Atom
      by (auto simp: rx_items_Atom Let_def simp del: rx_items.simps split: if_splits)
    from rx_try_Some [OF t] obtain j qs where
      j: "j \<le> quant_max q ?n" "quant_min q \<le> j \<or> j = quant_max q ?n"
        "rx_items its (drop j s) = Some qs" "ps = take j s # qs" by blast
    have jmin: "quant_min q \<le> j" using j(2) ok by auto
    have jn: "j \<le> ?n" using j(1) by (cases q) (auto simp: quant_max_def)
    have "take j s = take j (takeWhile (cmatch c) s)"
      using jn by (metis takeWhile_eq_take take_take min.absorb1 length_takeWhile_le min.absorb_iff1 order_trans min.commute)
    then have all: "list_all (cmatch c) (take j s)"
      by (metis list_all_iff set_takeWhileD in_set_takeD)
    have len: "length (take j s) = j" using jn length_takeWhile_le [of "cmatch c" s] by simp
    have bound: "case q of One \<Rightarrow> j \<le> 1 | Opt \<Rightarrow> j \<le> 1 | Star \<Rightarrow> True | Plus \<Rightarrow> True"
      using j(1) by (cases q) (auto simp: quant_max_def)
    from Cons.IH [OF j(3)] obtain r where r: "list_all2 piece_ok its qs" "drop j s = concat qs @ r"
      by blast
    have "s = take j s @ concat qs @ r" using r(2) by (metis append_take_drop_id)
    then show ?thesis using Atom j(4) r(1) all len jmin bound by (cases q) auto
  qed
qed

section \<open>Name groups and expected hub names\<close>

lemma insort_key_decorated:
  "insort_key snd (x, c x) (map (\<lambda>f. (f, c f)) ys) = map (\<lambda>f. (f, c f)) (insort_key c x ys)"
  by (induction ys) auto

lemma sort_key_decorated:
  "sort_key snd (map (\<lambda>f. (f, c f)) xs) = map (\<lambda>f. (f, c f)) (sort_key c xs)"
  by (induction xs) (auto simp: insort_key_decorated)

lemma getFoldersWithSameName_sort:
  "getFoldersWithSameName v folderName options =
     sort_key (ctime_or_zero v) (filter (in_name_group folderName options) (allFolders v))"
  by (simp add: getFoldersWithSameName_def in_name_group_def [abs_def] sort_key_decorated comp_def)

lemma sort_key_enumeration_independent:
  assumes "mset xs = mset xs'" and "inj_on c (set xs)"
  shows "sort_key c xs = sort_key c xs'"
  by (rule sort_key_inj_key_eq) (use assms in auto)

lemma findIndex_Some:
  "\<exists>x\<in>set xs. p x \<Longrightarrow>
   \<exists>i. findIndex p xs = Some i \<and> i < length xs \<and> p (xs ! i) \<and> (\<forall>j<i. \<not> p (xs ! j))"
proof (induction xs)
  case Nil
  then show ?case by simp
next
  case (Cons x xs)
  show ?case
  proof (cases "p x")
    case True
    then show ?thesis by simp
  next
    case False
    then obtain i where i: "findIndex p xs = Some i" "i < length xs" "p (xs ! i)" "\<forall>j<i. \<not> p (xs ! j)"
      using Cons by auto
    have "\<forall>j<Suc i. \<not> p ((x # xs) ! j)"
      using False i(4) by (auto simp: nth_Cons split: nat.splits)
    then show ?thesis using False i by auto
  qed
qed

lemma ctime_path: "folder_path a = folder_path b \<Longrightarrow> ctime_or_zero v a = ctime_or_zero v b"
  by (simp add: ctime_or_zero_def)

lemma String_of_nat_small: "n < 10 \<Longrightarrow> String_of_nat n = [digit_char n]"
  by (simp add: String_of_nat.simps)

lemma expected_general:
  assumes "f \<in> set (allFolders v)"
    and "\<not> shouldSkipPath (folder_path f) (pathSkipFromSettings s)"
  defines "grp \<equiv> getFoldersWithSameName v (folder_name f) (pathSkipFromSettings s)"
    and "suffix \<equiv> or_default (hubSuffix s) ''_''"
  shows "sorted (map (ctime_or_zero v) grp)"
    and "f \<in> set grp"
    and "length grp \<le> 1 \<Longrightarrow> getExpectedHubNameForFolder v f s = folder_name f @ suffix"
    and "1 < length grp \<Longrightarrow>
      \<exists>pos<length grp. folder_path (grp ! pos) = folder_path f \<and>
         (\<forall>j<pos. folder_path (grp ! j) \<noteq> folder_path f) \<and>
         getExpectedHubNameForFolder v f s = folder_name f @ suffix @ String_of_nat (pos + 1)"
proof -
  show "sorted (map (ctime_or_zero v) grp)"
    by (simp add: grp_def getFoldersWithSameName_sort)
  show mem: "f \<in> set grp"
    using assms(1,2) by (simp add: grp_def getFoldersWithSameName_sort in_name_group_def)
  have sfx: "or_default suffix ''_'' = suffix"
    by (simp add: suffix_def or_default_def)
  show "getExpectedHubNameForFolder v f s = folder_name f @ suffix" if "length grp \<le> 1"
    using that sfx
    by (simp add: getExpectedHubNameForFolder_def grp_def [symmetric] suffix_def [symmetric]
        getHubNameForFolder_def Let_def)
  show "\<exists>pos<length grp. folder_path (grp ! pos) = folder_path f \<and>
         (\<forall>j<pos. folder_path (grp ! j) \<noteq> folder_path f) \<and>
         getExpectedHubNameForFolder v f s = folder_name f @ suffix @ String_of_nat (pos + 1)"
    if "1 < length grp"
  proof -
    have "\<exists>x\<in>set grp. folder_path x = folder_path f" using mem by blast
    from findIndex_Some [OF this]
    obtain i where i: "findIndex (\<lambda>g. folder_path g = folder_path f) grp = Some i"
      "i < length grp" "folder_path (grp ! i) = folder_path f"
      "\<forall>j<i. folder_path (grp ! j) \<noteq> folder_path f" by blast
    have "getExpectedHubNameForFolder v f s = folder_name f @ suffix @ String_of_nat (i + 1)"
      using that i(1) sfx
      by (simp add: getExpectedHubNameForFolder_def grp_def [symmetric] suffix_def [symmetric]
          getNumberedHubName_def Let_def)
    then show ?thesis using i by blast
  qed
qed

lemma name_group_three:
  assumes grp: "mset (filter (in_name_group n (pathSkipFromSettings s)) (allFolders v)) = {#a, b, c#}"
    and lt: "ctime_or_zero v a < ctime_or_zero v b" "ctime_or_zero v b < ctime_or_zero v c"
  shows "getFoldersWithSameName v n (pathSkipFromSettings s) = [a, b, c]"
proof -
  let ?xs = "filter (in_name_group n (pathSkipFromSettings s)) (allFolders v)"
  have m: "mset ?xs = mset [a, b, c]" using grp by (simp add: add_mset_commute)
  then have "set ?xs = {a, b, c}" by (metis list.simps(15) empty_set mset_eq_setD)
  then have "inj_on (ctime_or_zero v) (set ?xs)" using lt by (auto simp: inj_on_def)
  moreover have "sorted (map (ctime_or_zero v) [a, b, c])" using lt by simp
  ultimately show ?thesis
    unfolding getFoldersWithSameName_sort using m by (intro sort_key_inj_key_eq) 
qed

lemma name_group_two:
  assumes grp: "mset (filter (in_name_group n (pathSkipFromSettings s)) (allFolders v)) = {#a, c#}"
    and lt: "ctime_or_zero v a < ctime_or_zero v c"
  shows "getFoldersWithSameName v n (pathSkipFromSettings s) = [a, c]"
proof -
  let ?xs = "filter (in_name_group n (pathSkipFromSettings s)) (allFolders v)"
  have m: "mset ?xs = mset [a, c]" using grp by (simp add: add_mset_commute)
  then have "set ?xs = {a, c}" by (metis list.simps(15) empty_set mset_eq_setD)
  then have "inj_on (ctime_or_zero v) (set ?xs)" using lt by (auto simp: inj_on_def)
  moreover have "sorted (map (ctime_or_zero v) [a, c])" using lt by simp
  ultimately show ?thesis
    unfolding getFoldersWithSameName_sort using m by (intro sort_key_inj_key_eq)
qed

lemma numbered_names_small:
  "getNumberedHubName n 1 ''_'' = n @ ''_1''"
  "getNumberedHubName n 2 ''_'' = n @ ''_2''"
  "getNumberedHubName n 3 ''_'' = n @ ''_3''"
  by (simp_all add: getNumberedHubName_def or_default_def String_of_nat_small digit_char_def)

lemma numbered_names_Suc:
  "getNumberedHubName n (Suc 0) ''_'' = n @ ''_1''"
  "getNumberedHubName n (Suc (Suc 0)) ''_'' = n @ ''_2''"
  "getNumberedHubName n (Suc (Suc (Suc 0))) ''_'' = n @ ''_3''"
  using numbered_names_small [of n] by (simp_all add: numeral_2_eq_2 numeral_3_eq_3)

lemma expected_three:
  assumes grp: "mset (filter (in_name_group n (pathSkipFromSettings s)) (allFolders v)) = {#a, b, c#}"
    and lt: "ctime_or_zero v a < ctime_or_zero v b" "ctime_or_zero v b < ctime_or_zero v c"
    and sfx: "hubSuffix s = ''_''"
  shows "getExpectedHubNameForFolder v a s = n @ ''_1''"
    and "getExpectedHubNameForFolder v b s = n @ ''_2''"
    and "getExpectedHubNameForFolder v c s = n @ ''_3''"
proof -
  let ?xs = "filter (in_name_group n (pathSkipFromSettings s)) (allFolders v)"
  have "set ?xs = set_mset {#a, b, c#}" using grp by (metis set_mset_mset)
  then have "a \<in> set ?xs" "b \<in> set ?xs" "c \<in> set ?xs" by auto
  then have names: "folder_name a = n" "folder_name b = n" "folder_name c = n"
    by (auto simp: in_name_group_def)
  have ne: "folder_path a \<noteq> folder_path b" "folder_path b \<noteq> folder_path c"
    "folder_path a \<noteq> folder_path c"
    using lt ctime_path [of a b v] ctime_path [of b c v] ctime_path [of a c v] by auto
  note g = name_group_three [OF grp lt]
  show "getExpectedHubNameForFolder v a s = n @ ''_1''"
    by (simp add: getExpectedHubNameForFolder_def names g sfx or_default_def numbered_names_Suc)
  show "getExpectedHubNameForFolder v b s = n @ ''_2''"
    using ne
    by (simp add: getExpectedHubNameForFolder_def names g sfx or_default_def numbered_names_Suc)
  show "getExpectedHubNameForFolder v c s = n @ ''_3''"
    using ne
    by (simp add: getExpectedHubNameForFolder_def names g sfx or_default_def numbered_names_Suc)
qed

lemma expected_two:
  assumes grp: "mset (filter (in_name_group n (pathSkipFromSettings s)) (allFolders v)) = {#a, c#}"
    and lt: "ctime_or_zero v a < ctime_or_zero v c"
    and sfx: "hubSuffix s = ''_''"
  shows "getExpectedHubNameForFolder v a s = n @ ''_1''"
    and "getExpectedHubNameForFolder v c s = n @ ''_2''"
proof -
  let ?xs = "filter (in_name_group n (pathSkipFromSettings s)) (allFolders v)"
  have "set ?xs = set_mset {#a, c#}" using grp by (metis set_mset_mset)
  then have "a \<in> set ?xs" "c \<in> set ?xs" by auto
  then have names: "folder_name a = n" "folder_name c = n"
    by (auto simp: in_name_group_def)
  have ne: "folder_path a \<noteq> folder_path c"
    using lt ctime_path [of a c v] by auto
  note g = name_group_two [OF grp lt]
  show "getExpectedHubNameForFolder v a s = n @ ''_1''"
    by (simp add: getExpectedHubNameForFolder_def names g sfx or_default_def numbered_names_Suc)
  show "getExpectedHubNameForFolder v c s = n @ ''_2''"
    using ne
    by (simp add: getExpectedHubNameForFolder_def names g sfx or_default_def numbered_names_Suc)
qed

lemma name_group_after_delete:
  assumes grp: "mset (filter (in_name_group n o') (allFolders v)) = {#a, b, c#}"
  shows "mset (filter (in_name_group n o') (allFolders (v\<lparr>allFolders := remove1 b (allFolders v)\<rparr>))) = {#a, c#}"
proof -
  let ?P = "in_name_group n o'"
  have "set (filter ?P (allFolders v)) = set_mset {#a, b, c#}" using grp by (metis set_mset_mset)
  then have Pb: "?P b" by auto
  have "mset (filter ?P (remove1 b (allFolders v))) = filter_mset ?P (mset (allFolders v) - {#b#})"
    by simp
  also have "\<dots> = filter_mset ?P (mset (allFolders v)) - {#b#}"
    using Pb by (simp add: filter_diff_mset)
  also have "\<dots> = {#a, c#}" using grp by simp
  finally show ?thesis by simp
qed

subsection \<open>The polling loop\<close>

lemma wait_loop_step:
  "wait_loop vaultAt folder settings n i =
     (if int i < n then
        (case stable_hub (vaultAt i) folder settings of
           Some h \<Rightarrow> (Some h, i + 1)
         | None \<Rightarrow> wait_loop vaultAt folder settings n (i + 1))
      else (None, i))"
  by (subst wait_loop.simps) (simp add: stable_hub_def Let_def split: option.splits)

lemma wait_loop_spec:
  "wait_loop vaultAt folder settings n i = (r, k) \<Longrightarrow>
     (case r of
        Some h \<Rightarrow> i < k \<and> int k \<le> n \<and> stable_hub (vaultAt (k - 1)) folder settings = Some h \<and>
                  (\<forall>j. i \<le> j \<and> j < k - 1 \<longrightarrow> stable_hub (vaultAt j) folder settings = None)
      | None \<Rightarrow> k = max i (nat n) \<and>
                  (\<forall>j. i \<le> j \<and> int j < n \<longrightarrow> stable_hub (vaultAt j) folder settings = None))"
proof (induction vaultAt folder settings n i arbitrary: r k rule: wait_loop.induct)
  case (1 vaultAt folder settings n i)
  show ?case
  proof (cases "int i < n")
    case False
    then show ?thesis using "1.prems" by (subst (asm) wait_loop_step) (auto simp: max_def)
  next
    case True
    show ?thesis
    proof (cases "stable_hub (vaultAt i) folder settings")
      case (Some h)
      have "wait_loop vaultAt folder settings n i = (Some h, i + 1)"
        using True Some by (subst wait_loop_step) simp
      then have rk: "r = Some h" "k = i + 1" using "1.prems" by simp_all
      show ?thesis unfolding rk using True Some by auto
    next
      case None
      then have rec: "wait_loop vaultAt folder settings n (i + 1) = (r, k)"
        using True "1.prems" by (subst (asm) wait_loop_step) simp
      have nohub: "findHubInFolder (vaultAt i) folder settings = None \<or>
        (\<exists>h. findHubInFolder (vaultAt i) folder settings = Some h \<and>
              basename h \<noteq> getExpectedHubNameForFolder (vaultAt i) folder settings)"
        using None by (auto simp: stable_hub_def split: option.splits if_splits)
      have IH: "(case r of
        Some h \<Rightarrow> i + 1 < k \<and> int k \<le> n \<and> stable_hub (vaultAt (k - 1)) folder settings = Some h \<and>
                  (\<forall>j. i + 1 \<le> j \<and> j < k - 1 \<longrightarrow> stable_hub (vaultAt j) folder settings = None)
      | None \<Rightarrow> k = max (i + 1) (nat n) \<and>
                  (\<forall>j. i + 1 \<le> j \<and> int j < n \<longrightarrow> stable_hub (vaultAt j) folder settings = None))"
        using nohub
      proof
        assume a: "findHubInFolder (vaultAt i) folder settings = None"
        show ?thesis by (rule "1.IH"(1) [OF True refl refl a rec])
      next
        assume "\<exists>h. findHubInFolder (vaultAt i) folder settings = Some h \<and>
              basename h \<noteq> getExpectedHubNameForFolder (vaultAt i) folder settings"
        then obtain h where a: "findHubInFolder (vaultAt i) folder settings = Some h"
          and b: "basename h \<noteq> getExpectedHubNameForFolder (vaultAt i) folder settings" by blast
        show ?thesis by (rule "1.IH"(2) [OF True refl refl a b rec])
      qed
      have step: "\<And>j. i \<le> j \<Longrightarrow> j = i \<or> i + 1 \<le> j" by auto
      show ?thesis
      proof (cases r)
        case rNone: None
        then have k: "k = max (i + 1) (nat n)"
          and all: "\<forall>j. i + 1 \<le> j \<and> int j < n \<longrightarrow> stable_hub (vaultAt j) folder settings = None"
          using IH by auto
        have "k = max i (nat n)" using k True by (simp add: max_def) linarith
        moreover have "\<forall>j. i \<le> j \<and> int j < n \<longrightarrow> stable_hub (vaultAt j) folder settings = None"
          using all None step by metis
        ultimately show ?thesis using rNone by simp
      next
        case (Some h)
        then have k: "i + 1 < k" "int k \<le> n" "stable_hub (vaultAt (k - 1)) folder settings = Some h"
          and all: "\<forall>j. i + 1 \<le> j \<and> j < k - 1 \<longrightarrow> stable_hub (vaultAt j) folder settings = None"
          using IH by auto
        have "\<forall>j. i \<le> j \<and> j < k - 1 \<longrightarrow> stable_hub (vaultAt j) folder settings = None"
          using all None step by metis
        then show ?thesis using Some k by simp
      qed
    qed
  qed
qed

section \<open>Expected hub names, name groups and the stabilization wait\<close>

text \<open>
  C1, as the code has it. For a folder of the vault that is not excluded, the expected
  hub name is the folder name followed by the suffix (the underscore when the configured
  suffix is empty) if its name group has at most one member; otherwise it is that name
  followed by the decimal numeral of \<open>pos + 1\<close>, where \<open>pos\<close> is the first index in the
  name group (sorted by creation time) whose folder has the path of the folder. For
  three folders named \<^verbatim>\<open>X\<close> created at increasing times, with the suffix \<^verbatim>\<open>_\<close> and in any
  enumeration order of the vault, the names are \<^verbatim>\<open>X_1\<close>, \<^verbatim>\<open>X_2\<close>, \<^verbatim>\<open>X_3\<close>; once the middle
  folder is deleted the third folder's name is \<^verbatim>\<open>X_2\<close>.
\<close>

theorem expected_hub_name_by_creation_order:
  "(f \<in> set (allFolders v) \<and> \<not> shouldSkipPath (folder_path f) (pathSkipFromSettings s) \<longrightarrow>
     (let grp = getFoldersWithSameName v (folder_name f) (pathSkipFromSettings s);
          suffix = or_default (hubSuffix s) ''_''
      in sorted (map (ctime_or_zero v) grp) \<and> f \<in> set grp \<and>
         (length grp \<le> 1 \<longrightarrow> getExpectedHubNameForFolder v f s = folder_name f @ suffix) \<and>
         (1 < length grp \<longrightarrow>
            (\<exists>pos<length grp. folder_path (grp ! pos) = folder_path f \<and>
               (\<forall>j<pos. folder_path (grp ! j) \<noteq> folder_path f) \<and>
               getExpectedHubNameForFolder v f s =
                 folder_name f @ suffix @ String_of_nat (pos + 1))))) \<and>
   (mset (filter (in_name_group ''X'' (pathSkipFromSettings s)) (allFolders v)) = {#a, b, c#} \<and>
    ctime_or_zero v a < ctime_or_zero v b \<and> ctime_or_zero v b < ctime_or_zero v c \<and>
    hubSuffix s = ''_'' \<longrightarrow>
      getExpectedHubNameForFolder v a s = ''X_1'' \<and>
      getExpectedHubNameForFolder v b s = ''X_2'' \<and>
      getExpectedHubNameForFolder v c s = ''X_3'' \<and>
      getExpectedHubNameForFolder (v\<lparr>allFolders := remove1 b (allFolders v)\<rparr>) a s = ''X_1'' \<and>
      getExpectedHubNameForFolder (v\<lparr>allFolders := remove1 b (allFolders v)\<rparr>) c s = ''X_2'')"
proof (intro conjI impI)
  assume h: "f \<in> set (allFolders v) \<and> \<not> shouldSkipPath (folder_path f) (pathSkipFromSettings s)"
  then have f: "f \<in> set (allFolders v)"
    and ns: "\<not> shouldSkipPath (folder_path f) (pathSkipFromSettings s)" by simp_all
  show "let grp = getFoldersWithSameName v (folder_name f) (pathSkipFromSettings s);
          suffix = or_default (hubSuffix s) ''_''
      in sorted (map (ctime_or_zero v) grp) \<and> f \<in> set grp \<and>
         (length grp \<le> 1 \<longrightarrow> getExpectedHubNameForFolder v f s = folder_name f @ suffix) \<and>
         (1 < length grp \<longrightarrow>
            (\<exists>pos<length grp. folder_path (grp ! pos) = folder_path f \<and>
               (\<forall>j<pos. folder_path (grp ! j) \<noteq> folder_path f) \<and>
               getExpectedHubNameForFolder v f s =
                 folder_name f @ suffix @ String_of_nat (pos + 1)))"
    unfolding Let_def
    using expected_general(1) [OF f ns] expected_general(2) [OF f ns]
      expected_general(3) [OF f ns] expected_general(4) [OF f ns]
    by blast
next
  assume h: "mset (filter (in_name_group ''X'' (pathSkipFromSettings s)) (allFolders v)) = {#a, b, c#} \<and>
    ctime_or_zero v a < ctime_or_zero v b \<and> ctime_or_zero v b < ctime_or_zero v c \<and>
    hubSuffix s = ''_''"
  then have grp: "mset (filter (in_name_group ''X'' (pathSkipFromSettings s)) (allFolders v)) = {#a, b, c#}"
    and lt: "ctime_or_zero v a < ctime_or_zero v b" "ctime_or_zero v b < ctime_or_zero v c"
    and sfx: "hubSuffix s = ''_''" by simp_all
  let ?v' = "v\<lparr>allFolders := remove1 b (allFolders v)\<rparr>"
  have ct: "ctime_or_zero ?v' = ctime_or_zero v"
    by (rule ext) (simp add: ctime_or_zero_def stat_ctime_def)
  have grp': "mset (filter (in_name_group ''X'' (pathSkipFromSettings s)) (allFolders ?v')) = {#a, c#}"
    by (rule name_group_after_delete [OF grp])
  have lt': "ctime_or_zero ?v' a < ctime_or_zero ?v' c" using lt by (simp add: ct)
  show "getExpectedHubNameForFolder v a s = ''X_1''"
    using expected_three(1) [OF grp lt sfx] by simp
  show "getExpectedHubNameForFolder v b s = ''X_2''"
    using expected_three(2) [OF grp lt sfx] by simp
  show "getExpectedHubNameForFolder v c s = ''X_3''"
    using expected_three(3) [OF grp lt sfx] by simp
  show "getExpectedHubNameForFolder ?v' a s = ''X_1''"
    using expected_two(1) [OF grp' lt' sfx] by simp
  show "getExpectedHubNameForFolder ?v' c s = ''X_2''"
    using expected_two(2) [OF grp' lt' sfx] by simp
qed

theorem expected_hub_name_witness:
  "sub_folder ''b'' ''X'' \<in> set (allFolders example_vault) \<and>
   getFoldersWithSameName example_vault ''X'' (pathSkipFromSettings DEFAULT_SETTINGS) =
     [sub_folder ''a'' ''X'', sub_folder ''b'' ''X'', sub_folder ''c'' ''X''] \<and>
   getExpectedHubNameForFolder example_vault (sub_folder ''a'' ''X'') DEFAULT_SETTINGS = ''X_1'' \<and>
   getExpectedHubNameForFolder example_vault (sub_folder ''b'' ''X'') DEFAULT_SETTINGS = ''X_2'' \<and>
   getExpectedHubNameForFolder example_vault (sub_folder ''c'' ''X'') DEFAULT_SETTINGS = ''X_3'' \<and>
   getExpectedHubNameForFolder
     (example_vault\<lparr>allFolders := remove1 (sub_folder ''b'' ''X'') (allFolders example_vault)\<rparr>)
     (sub_folder ''c'' ''X'') DEFAULT_SETTINGS = ''X_2''"
proof -
  let ?a = "sub_folder ''a'' ''X''" and ?b = "sub_folder ''b'' ''X''" and ?c = "sub_folder ''c'' ''X''"
  let ?s = DEFAULT_SETTINGS
  have mem: "?b \<in> set (allFolders example_vault)" by (simp add: example_vault_def)
  have flt: "filter (in_name_group ''X'' (pathSkipFromSettings ?s)) (allFolders example_vault) = [?c, ?a, ?b]"
    by code_simp
  have grp: "mset (filter (in_name_group ''X'' (pathSkipFromSettings ?s)) (allFolders example_vault)) = {#?a, ?b, ?c#}"
    unfolding flt by (simp add: add_mset_commute)
  have lt: "ctime_or_zero example_vault ?a < ctime_or_zero example_vault ?b"
    "ctime_or_zero example_vault ?b < ctime_or_zero example_vault ?c" by code_simp+
  have sfx: "hubSuffix ?s = ''_''" by (simp add: DEFAULT_SETTINGS_def)
  have g: "getFoldersWithSameName example_vault ''X'' (pathSkipFromSettings ?s) = [?a, ?b, ?c]"
    by code_simp
  show ?thesis
    using expected_hub_name_by_creation_order [of ?b example_vault ?s ?a ?b ?c] mem g grp lt sfx
    by simp
qed

text \<open>
  C1 as stated fails for the empty configured suffix: a single folder named \<^verbatim>\<open>X\<close> has the
  expected hub name \<^verbatim>\<open>X_\<close>, not the folder name concatenated with the (empty) suffix.
\<close>

theorem expected_hub_name_empty_suffix_counterexample:
  "length (getFoldersWithSameName
       \<lparr>allFolders = [TFolder ''X'' ''X'' (Some root_folder)], files = [], stats = [(''X'', 10)]\<rparr>
       ''X'' (pathSkipFromSettings (DEFAULT_SETTINGS\<lparr>hubSuffix := []\<rparr>))) \<le> 1 \<and>
   getExpectedHubNameForFolder
       \<lparr>allFolders = [TFolder ''X'' ''X'' (Some root_folder)], files = [], stats = [(''X'', 10)]\<rparr>
       (TFolder ''X'' ''X'' (Some root_folder)) (DEFAULT_SETTINGS\<lparr>hubSuffix := []\<rparr>) = ''X_'' \<and>
   ''X_'' \<noteq> folder_name (TFolder ''X'' ''X'' (Some root_folder)) @ hubSuffix (DEFAULT_SETTINGS\<lparr>hubSuffix := []\<rparr>)"
  by code_simp

text \<open>
  C6, as the code has it. \<open>getFoldersWithSameName\<close> returns the folders of the vault with
  exactly that name that are not excluded, sorted ascending by creation time (a missing
  creation time counts as zero). The sort is stable: folders with the same creation time
  keep the order in which the vault enumerates them; there is no tie-break by path. The
  result does not depend on the enumeration order when the creation times within the
  group are pairwise distinct.
\<close>

theorem same_name_group_sorted_by_creation_time:
  "mset (getFoldersWithSameName v folderName options) =
     mset (filter (in_name_group folderName options) (allFolders v)) \<and>
   sorted (map (ctime_or_zero v) (getFoldersWithSameName v folderName options)) \<and>
   filter (\<lambda>f. ctime_or_zero v f = k) (getFoldersWithSameName v folderName options) =
     filter (\<lambda>f. ctime_or_zero v f = k) (filter (in_name_group folderName options) (allFolders v)) \<and>
   (stats v' = stats v \<and> mset (allFolders v') = mset (allFolders v) \<and>
    inj_on (ctime_or_zero v) (set (filter (in_name_group folderName options) (allFolders v))) \<longrightarrow>
      getFoldersWithSameName v' folderName options = getFoldersWithSameName v folderName options)"
proof (intro conjI impI)
  show "mset (getFoldersWithSameName v folderName options) =
     mset (filter (in_name_group folderName options) (allFolders v))"
    by (simp add: getFoldersWithSameName_sort)
  show "sorted (map (ctime_or_zero v) (getFoldersWithSameName v folderName options))"
    by (simp add: getFoldersWithSameName_sort)
  show "filter (\<lambda>f. ctime_or_zero v f = k) (getFoldersWithSameName v folderName options) =
     filter (\<lambda>f. ctime_or_zero v f = k) (filter (in_name_group folderName options) (allFolders v))"
    unfolding getFoldersWithSameName_sort by (rule sort_key_stable)
next
  assume h: "stats v' = stats v \<and> mset (allFolders v') = mset (allFolders v) \<and>
    inj_on (ctime_or_zero v) (set (filter (in_name_group folderName options) (allFolders v)))"
  then have ct: "ctime_or_zero v' = ctime_or_zero v"
    by (intro ext) (simp add: ctime_or_zero_def stat_ctime_def)
  have "mset (filter (in_name_group folderName options) (allFolders v)) =
        mset (filter (in_name_group folderName options) (allFolders v'))"
    using h by simp
  then have "sort_key (ctime_or_zero v) (filter (in_name_group folderName options) (allFolders v)) =
        sort_key (ctime_or_zero v) (filter (in_name_group folderName options) (allFolders v'))"
    using h by (intro sort_key_enumeration_independent) simp_all
  then show "getFoldersWithSameName v' folderName options = getFoldersWithSameName v folderName options"
    by (simp add: getFoldersWithSameName_sort ct)
qed

theorem same_name_group_witness:
  "getFoldersWithSameName example_vault ''X'' (pathSkipFromSettings DEFAULT_SETTINGS) =
     [sub_folder ''a'' ''X'', sub_folder ''b'' ''X'', sub_folder ''c'' ''X''] \<and>
   getFoldersWithSameName (example_vault\<lparr>allFolders := rev (allFolders example_vault)\<rparr>) ''X''
       (pathSkipFromSettings DEFAULT_SETTINGS) =
     getFoldersWithSameName example_vault ''X'' (pathSkipFromSettings DEFAULT_SETTINGS)"
proof -
  let ?o = "pathSkipFromSettings DEFAULT_SETTINGS"
  let ?v' = "example_vault\<lparr>allFolders := rev (allFolders example_vault)\<rparr>"
  have g: "getFoldersWithSameName example_vault ''X'' ?o =
     [sub_folder ''a'' ''X'', sub_folder ''b'' ''X'', sub_folder ''c'' ''X'']"
    by code_simp
  have flt: "filter (in_name_group ''X'' ?o) (allFolders example_vault) =
      [sub_folder ''c'' ''X'', sub_folder ''a'' ''X'', sub_folder ''b'' ''X'']"
    by code_simp
  have ct: "ctime_or_zero example_vault (sub_folder ''a'' ''X'') = 10"
    "ctime_or_zero example_vault (sub_folder ''b'' ''X'') = 20"
    "ctime_or_zero example_vault (sub_folder ''c'' ''X'') = 30" by code_simp+
  have inj: "inj_on (ctime_or_zero example_vault) (set (filter (in_name_group ''X'' ?o) (allFolders example_vault)))"
    unfolding flt by (auto simp: inj_on_def ct)
  have "stats ?v' = stats example_vault" "mset (allFolders ?v') = mset (allFolders example_vault)"
    by simp_all
  then show ?thesis
    using same_name_group_sorted_by_creation_time [of example_vault "''X''" ?o 0 ?v'] inj g
    by simp
qed

text \<open>
  C6 as stated fails: two folders named \<^verbatim>\<open>X\<close> whose creation time is unavailable are
  returned in the order of the enumeration, so \<^verbatim>\<open>b/X\<close> comes before \<^verbatim>\<open>a/X\<close> when the
  vault enumerates it first, and the two enumerations give different orders.
\<close>

theorem same_name_group_tie_counterexample:
  "getFoldersWithSameName
     \<lparr>allFolders = [sub_folder ''b'' ''X'', sub_folder ''a'' ''X''], files = [], stats = []\<rparr>
     ''X'' (pathSkipFromSettings DEFAULT_SETTINGS) = [sub_folder ''b'' ''X'', sub_folder ''a'' ''X''] \<and>
   getFoldersWithSameName
     \<lparr>allFolders = [sub_folder ''a'' ''X'', sub_folder ''b'' ''X''], files = [], stats = []\<rparr>
     ''X'' (pathSkipFromSettings DEFAULT_SETTINGS) = [sub_folder ''a'' ''X'', sub_folder ''b'' ''X'']"
  by code_simp

text \<open>
  C8. \<open>waitForNumberedHub\<close> is a total function, so it returns. It makes at most as many
  attempts as configured (60 by default). When it returns a hub, that hub is the one
  found in the folder at the last attempt made, its base name is the expected hub name
  at that attempt, and no earlier attempt saw such a hub. When it returns \<^verbatim>\<open>null\<close>, it has
  made exactly the configured number of attempts and none of them saw such a hub.
\<close>

theorem waitForNumberedHub_bounded_polling:
  "int (snd (waitForNumberedHub vaultAt folder settings options)) \<le>
     max 0 (case Option.bind options attempts of None \<Rightarrow> WAIT_FOR_HUB_ATTEMPTS | Some a \<Rightarrow> a) \<and>
   (options = None \<longrightarrow> snd (waitForNumberedHub vaultAt folder settings options) \<le> 60) \<and>
   (fst (waitForNumberedHub vaultAt folder settings options) = Some h \<longrightarrow>
      0 < snd (waitForNumberedHub vaultAt folder settings options) \<and>
      findHubInFolder (vaultAt (snd (waitForNumberedHub vaultAt folder settings options) - 1))
        folder settings = Some h \<and>
      basename h =
        getExpectedHubNameForFolder
          (vaultAt (snd (waitForNumberedHub vaultAt folder settings options) - 1)) folder settings \<and>
      (\<forall>j < snd (waitForNumberedHub vaultAt folder settings options) - 1.
         stable_hub (vaultAt j) folder settings = None)) \<and>
   (fst (waitForNumberedHub vaultAt folder settings options) = None \<longrightarrow>
      snd (waitForNumberedHub vaultAt folder settings options) =
        nat (case Option.bind options attempts of None \<Rightarrow> WAIT_FOR_HUB_ATTEMPTS | Some a \<Rightarrow> a) \<and>
      (\<forall>j. int j < (case Option.bind options attempts of None \<Rightarrow> WAIT_FOR_HUB_ATTEMPTS | Some a \<Rightarrow> a) \<longrightarrow>
         stable_hub (vaultAt j) folder settings = None))"
proof -
  define n where "n = (case Option.bind options attempts of None \<Rightarrow> WAIT_FOR_HUB_ATTEMPTS | Some a \<Rightarrow> a)"
  define r where "r = fst (waitForNumberedHub vaultAt folder settings options)"
  define k where "k = snd (waitForNumberedHub vaultAt folder settings options)"
  have w: "wait_loop vaultAt folder settings n 0 = (r, k)"
    by (simp add: r_def k_def n_def waitForNumberedHub_def)
  note spec = wait_loop_spec [OF w]
  have dflt: "options = None \<Longrightarrow> n = 60" by (simp add: n_def WAIT_FOR_HUB_ATTEMPTS_def)
  have stable_D: "stable_hub u folder settings = Some h \<Longrightarrow>
      findHubInFolder u folder settings = Some h \<and> basename h = getExpectedHubNameForFolder u folder settings"
    for u by (auto simp: stable_hub_def split: option.splits if_splits)
  have bound: "int k \<le> max 0 n"
    using spec by (cases r) (auto simp: max_def)
  have some: "r = Some h \<longrightarrow> 0 < k \<and> findHubInFolder (vaultAt (k - 1)) folder settings = Some h \<and>
      basename h = getExpectedHubNameForFolder (vaultAt (k - 1)) folder settings \<and>
      (\<forall>j < k - 1. stable_hub (vaultAt j) folder settings = None)"
    using spec stable_D [of "vaultAt (k - 1)"] by auto
  have none: "r = None \<longrightarrow> k = nat n \<and> (\<forall>j. int j < n \<longrightarrow> stable_hub (vaultAt j) folder settings = None)"
    using spec by (auto simp: max_def)
  have "options = None \<longrightarrow> k \<le> 60" using bound dflt by auto
  then show ?thesis using bound some none unfolding n_def r_def k_def by blast
qed

theorem waitForNumberedHub_witness:
  "waitForNumberedHub
     (\<lambda>i. if i < 2 then example_vault
           else example_vault\<lparr>files := [(md_file (sub_folder ''a'' ''X'') ''X_1'', [])]\<rparr>)
     (sub_folder ''a'' ''X'') DEFAULT_SETTINGS None
     = (Some (md_file (sub_folder ''a'' ''X'') ''X_1''), 3) \<and>
   basename (md_file (sub_folder ''a'' ''X'') ''X_1'') =
     getExpectedHubNameForFolder
       (example_vault\<lparr>files := [(md_file (sub_folder ''a'' ''X'') ''X_1'', [])]\<rparr>)
       (sub_folder ''a'' ''X'') DEFAULT_SETTINGS \<and>
   waitForNumberedHub (\<lambda>i. example_vault) (sub_folder ''a'' ''X'') DEFAULT_SETTINGS None = (None, 60)"
proof -
  let ?va = "\<lambda>i::nat. if i < 2 then example_vault
           else example_vault\<lparr>files := [(md_file (sub_folder ''a'' ''X'') ''X_1'', [])]\<rparr>"
  let ?f = "sub_folder ''a'' ''X''"
  let ?h = "md_file (sub_folder ''a'' ''X'') ''X_1''"
  have r1: "waitForNumberedHub ?va ?f DEFAULT_SETTINGS None = (Some ?h, 3)"
    by code_simp
  have r2: "waitForNumberedHub (\<lambda>i. example_vault) ?f DEFAULT_SETTINGS None = (None, 60)"
    by code_simp
  show ?thesis
    using waitForNumberedHub_bounded_polling [of ?va ?f DEFAULT_SETTINGS None ?h] r1 r2
    by simp
qed

section \<open>What the operations leave unchanged\<close>

named_theorems pres

lemma bind_io_simps [simp]:
  "bind_io (return_io x) f = f x"
  "bind_io (throw e) f = throw e"
  "bind_io (ask g) f = (\<lambda>w. f (g w) w)"
  by (auto simp: bind_io_def return_io_def throw_def ask_def)

lemma preserves_return [pres]: "preserves g (return_io x)"
  by (simp add: preserves_def return_io_def)

lemma preserves_throw [pres]: "preserves g (throw e)"
  by (simp add: preserves_def throw_def)

lemma preserves_ask [pres]: "preserves g (ask f)"
  by (simp add: preserves_def ask_def)

lemma preserves_bind [pres]:
  "preserves g m \<Longrightarrow> (\<And>x. preserves g (f x)) \<Longrightarrow> preserves g (bind_io m f)"
  by (auto simp: preserves_def bind_io_def split: prod.splits sum.splits) (metis snd_conv)+

lemma preserves_foreach [pres]:
  "(\<And>x. preserves g (body x)) \<Longrightarrow> preserves g (foreach xs body)"
  by (induction xs) (auto intro: pres)

lemma preserves_if [pres]:
  "(c \<Longrightarrow> preserves g a) \<Longrightarrow> (\<not> c \<Longrightarrow> preserves g b) \<Longrightarrow> preserves g (if c then a else b)"
  by simp

lemma preserves_case_option [pres]:
  "preserves g a \<Longrightarrow> (\<And>x. preserves g (b x)) \<Longrightarrow> preserves g (case opt of None \<Rightarrow> a | Some x \<Rightarrow> b x)"
  by (cases opt) auto

lemma preserves_case_list [pres]:
  "preserves g a \<Longrightarrow> (\<And>x xs. preserves g (b x xs)) \<Longrightarrow> preserves g (case l of [] \<Rightarrow> a | x # xs \<Rightarrow> b x xs)"
  by (cases l) auto

lemma preserves_Let [pres]: "preserves g (f x) \<Longrightarrow> preserves g (Let x f)"
  by simp

lemma preserves_setWriteLock [pres]:
  "preserves w_settings (setWriteLock p)" "preserves w_vault (setWriteLock p)"
  "preserves w_writes (setWriteLock p)" "preserves w_saved (setWriteLock p)"
  "preserves w_clock (setWriteLock p)"
  by (simp_all add: preserves_def setWriteLock_def)

lemma preserves_vault_read [pres]: "preserves g (vault_read f)"
  by (simp add: preserves_def vault_read_def split: option.splits)

lemma preserves_vault_modify [pres]:
  "preserves w_settings (vault_modify f d)" "preserves w_saved (vault_modify f d)"
  "preserves w_locks (vault_modify f d)" "preserves w_clock (vault_modify f d)"
  by (simp_all add: preserves_def vault_modify_def)

lemma preserves_vault_create [pres]:
  "preserves w_settings (vault_create p d)" "preserves w_saved (vault_create p d)"
  "preserves w_locks (vault_create p d)" "preserves w_clock (vault_create p d)"
  by (simp_all add: preserves_def vault_create_def split: option.splits)

lemma preserves_vault_rename [pres]:
  "preserves w_settings (vault_rename f p)" "preserves w_saved (vault_rename f p)"
  "preserves w_locks (vault_rename f p)" "preserves w_clock (vault_rename f p)"
  by (simp_all add: preserves_def vault_rename_def split: option.splits)

lemma preserves_trashFile [pres]:
  "preserves w_settings (trashFile f)" "preserves w_saved (trashFile f)"
  "preserves w_locks (trashFile f)" "preserves w_clock (trashFile f)"
  by (simp_all add: preserves_def trashFile_def)

lemma preserves_app_vault [pres]: "preserves g (app_vault app)"
  by (cases app) (simp_all add: app_vault_def pres)

lemma preserves_ensureHubContentUpToDate [pres]:
  "preserves w_settings (ensureHubContentUpToDate h f)"
  unfolding ensureHubContentUpToDate_def by (intro pres)

lemma preserves_ensureHubForFolder [pres]:
  "preserves w_settings (ensureHubForFolder f)"
  unfolding ensureHubForFolder_def by (intro pres)

lemma preserves_rename_hub [pres]:
  "preserves w_settings (rename_hub h f n)"
  unfolding rename_hub_def by (intro pres)

lemma preserves_assign_numbered_hub [pres]:
  "preserves w_settings (assign_numbered_hub n s fi)"
  unfolding assign_numbered_hub_def by (intro pres)

lemma preserves_assignNumberedHubsForName [pres]:
  "preserves w_settings (assignNumberedHubsForName n)"
  unfolding assignNumberedHubsForName_def by (intro pres)

lemma preserves_deleteAll [pres]:
  "preserves w_settings (deleteAllHubFilesWithSuffix app sfx)"
  unfolding deleteAllHubFilesWithSuffix_def delete_hub_files_in_def by (intro pres)

lemma preserves_buildRefreshHubNotes [pres]:
  "preserves w_settings (buildRefreshHubNotes app)"
  unfolding buildRefreshHubNotes_def migrateHubSuffix_def by (intro pres)


lemma preserves_comp: "preserves g m \<Longrightarrow> preserves (\<lambda>w. h (g w)) m"
  by (simp add: preserves_def)

lemma preserves_upsert [pres]: "preserves w_settings (upsertHubLinkInNote note)"
  unfolding upsertHubLinkInNote_def by (intro pres)

lemma preserves_removeAllHubLinksFromNotes [pres]: "preserves w_settings removeAllHubLinksFromNotes"
  unfolding removeAllHubLinksFromNotes_def by (intro pres)

lemma preserves_removeAllHubNotes [pres]: "preserves w_settings (removeAllHubNotes app)"
  unfolding removeAllHubNotes_def by (intro pres)

lemma preserves_refreshLinks [pres]: "preserves w_settings (refreshLinksInNotesForFolderName n)"
  unfolding refreshLinksInNotesForFolderName_def by (intro pres)

lemma preserves_handleDuplicateFolderNames [pres]: "preserves w_settings (handleDuplicateFolderNames n)"
  unfolding handleDuplicateFolderNames_def by (intro pres)

lemma preserves_isWriteLocked [pres]:
  "preserves w_settings (isWriteLocked p)" "preserves w_vault (isWriteLocked p)"
  "preserves w_writes (isWriteLocked p)" "preserves w_saved (isWriteLocked p)"
  "preserves w_clock (isWriteLocked p)"
  by (simp_all add: preserves_def isWriteLocked_def split: option.splits)

text \<open>The migration step of the handlers fails before it changes anything.\<close>

lemma buildRefreshHubNotes_TheVault:
  "buildRefreshHubNotes TheVault w = (Inl TypeError, w)"
  by (simp add: buildRefreshHubNotes_def migrateHubSuffix_def deleteAllHubFilesWithSuffix_def
      app_vault_def bind_io_def ask_def throw_def return_io_def)

lemma runSuffixMigrationIfNeeded_eq:
  "runSuffixMigrationIfNeeded w =
     (if hubSuffix (w_settings w) = previous_or_current (w_settings w) then (Inr False, w)
      else (Inl TypeError, w))"
  by (simp add: runSuffixMigrationIfNeeded_def bind_io_def ask_def return_io_def
      buildRefreshHubNotes_TheVault)

lemma preserves_runSuffixMigrationIfNeeded [pres]: "preserves g runSuffixMigrationIfNeeded"
  by (simp add: preserves_def runSuffixMigrationIfNeeded_eq)

lemma preserves_onFolderCreate [pres]: "preserves w_settings (onFolderCreate f)"
  unfolding onFolderCreate_def by (intro pres)

lemma preserves_onFolderDelete [pres]: "preserves w_settings (onFolderDelete n)"
  unfolding onFolderDelete_def by (intro pres)

lemma preserves_onFileCreate [pres]: "preserves w_settings (onFileCreate f)"
  unfolding onFileCreate_def by (intro pres)

lemma preserves_onFileRename [pres]: "preserves w_settings (onFileRename f)"
  unfolding onFileRename_def by (intro pres)

lemma preserves_onFolderRename [pres]: "preserves w_settings (onFolderRename f p)"
  unfolding onFolderRename_def by (intro pres)

lemma preserves_spawn [pres]: "preserves g m \<Longrightarrow> preserves g (spawn m)"
  by (simp add: preserves_def spawn_def catch_ignore_def)

lemma preserves_catch_ignore: "preserves g m \<Longrightarrow> g (catch_ignore m w) = g w"
  by (simp add: preserves_def catch_ignore_def)

section \<open>The suppression flag and the write lock in the handlers\<close>

lemma preserves_set_settings_flag:
  "preserves w_vault (set_settings f)" "preserves w_writes (set_settings f)"
  "preserves w_locks (set_settings f)" "preserves w_clock (set_settings f)"
  by (simp_all add: preserves_def set_settings_def)

lemma preserves_saveSettings [pres]:
  "preserves w_vault saveSettings" "preserves w_writes saveSettings"
  "preserves w_locks saveSettings" "preserves w_clock saveSettings"
  "preserves w_settings saveSettings"
  by (simp_all add: preserves_def saveSettings_def)

lemma preserves_buildRefreshHubLinks_but_previous [pres]:
  "preserves settings_but_previous buildRefreshHubLinks"
proof -
  have up: "preserves settings_but_previous (upsertHubLinkInNote f)" for f
    using preserves_comp [OF preserves_upsert, of "\<lambda>s. s\<lparr>previousHubSuffix := None\<rparr>"]
    by (simp add: settings_but_previous_def [abs_def])
  have last: "preserves settings_but_previous
     (\<lambda>w. (Inr (), w\<lparr>w_settings := (w_settings w)\<lparr>previousHubSuffix := Some (hubSuffix (w_settings w))\<rparr>\<rparr>))"
    by (simp add: preserves_def settings_but_previous_def)
  show ?thesis
    unfolding buildRefreshHubLinks_def
    by (intro pres up) (rule last)
qed

lemma suppressed_handlers:
  assumes "autoCreateSuppressedUntilBuildRefresh (w_settings w) \<or> \<not> realTimeUpdating (w_settings w)"
  shows "onFolderCreate f w = (Inr (), w)"
    and "onFolderRename f p w = (Inr (), w)"
    and "onFolderDelete n w = (Inr (), w)"
    and "onFileCreate g w = (Inr (), w)"
    and "onFileRename g w = (Inr (), w)"
  using assms
  by (auto simp: onFolderCreate_def onFolderRename_def onFolderDelete_def onFileCreate_def
      onFileRename_def bind_io_def ask_def return_io_def)

lemma isWriteLocked_same: "same_but_locks w (snd (isWriteLocked p w))"
  by (simp add: isWriteLocked_def same_but_locks_def split: option.splits)

lemma isWriteLocked_result: "\<exists>b w'. isWriteLocked p w = (Inr b, w')"
  by (cases "map_of (w_locks w) p") (auto simp: isWriteLocked_def)

lemma suppressed_on_create:
  assumes "autoCreateSuppressedUntilBuildRefresh (w_settings w) \<or> \<not> realTimeUpdating (w_settings w)"
  shows "same_but_locks w (on_create af w)"
proof -
  obtain b w' where l: "isWriteLocked (abstract_path af) w = (Inr b, w')"
    using isWriteLocked_result by blast
  then have s: "same_but_locks w w'" using isWriteLocked_same [of w "abstract_path af"] by simp
  then have a: "autoCreateSuppressedUntilBuildRefresh (w_settings w') \<or> \<not> realTimeUpdating (w_settings w')"
    using assms by (simp add: same_but_locks_def)
  show ?thesis
    using l s suppressed_handlers [OF a]
    by (cases af) (simp_all add: on_create_def catch_ignore_def bind_io_def return_io_def spawn_def)
qed

lemma suppressed_on_delete:
  assumes "autoCreateSuppressedUntilBuildRefresh (w_settings w) \<or> \<not> realTimeUpdating (w_settings w)"
  shows "on_delete af w = w"
  using suppressed_handlers [OF assms]
  by (cases af) (simp_all add: on_delete_def catch_ignore_def return_io_def spawn_def)

lemma same_but_locks_trans: "same_but_locks a b \<Longrightarrow> same_but_locks b c \<Longrightarrow> same_but_locks a c"
  by (simp add: same_but_locks_def)

lemma same_but_locks_refl: "same_but_locks a a"
  by (simp add: same_but_locks_def)

lemma suppressed_on_rename:
  assumes "autoCreateSuppressedUntilBuildRefresh (w_settings w) \<or> \<not> realTimeUpdating (w_settings w)"
  shows "same_but_locks w (on_rename af oldPath w)"
proof (cases af)
  case (AFile f)
  then show ?thesis
    using suppressed_handlers [OF assms]
    by (simp add: on_rename_def catch_ignore_def spawn_def same_but_locks_refl)
next
  case (AFolder folder)
  obtain b w1 where l1: "isWriteLocked (folder_path folder) w = (Inr b, w1)"
    using isWriteLocked_result by blast
  then have s1: "same_but_locks w w1" using isWriteLocked_same [of w "folder_path folder"] by simp
  obtain c w2 where l2: "isWriteLocked oldPath w1 = (Inr c, w2)"
    using isWriteLocked_result by blast
  then have s2: "same_but_locks w1 w2" using isWriteLocked_same [of w1 oldPath] by simp
  have s12: "same_but_locks w w2" by (rule same_but_locks_trans [OF s1 s2])
  have a1: "autoCreateSuppressedUntilBuildRefresh (w_settings w1) \<or> \<not> realTimeUpdating (w_settings w1)"
    using assms s1 by (simp add: same_but_locks_def)
  have a2: "autoCreateSuppressedUntilBuildRefresh (w_settings w2) \<or> \<not> realTimeUpdating (w_settings w2)"
    using assms s12 by (simp add: same_but_locks_def)
  show ?thesis
    using AFolder l1 l2 s1 s12 suppressed_handlers(2) [OF a1] suppressed_handlers(2) [OF a2]
    by (simp add: on_rename_def catch_ignore_def bind_io_def return_io_def spawn_def)
qed


lemma isWriteLocked_locked: "locked_now w p \<Longrightarrow> isWriteLocked p w = (Inr True, w)"
  by (auto simp: locked_now_def isWriteLocked_def split: option.splits)





lemma on_rename_folder_new_locked:
  "locked_now w (folder_path folder) \<Longrightarrow> on_rename (AFolder folder) oldPath w = w"
  by (simp add: on_rename_def catch_ignore_def bind_io_def isWriteLocked_locked return_io_def)




subsection \<open>Operations that do not read the write-lock table\<close>

named_theorems blind

lemma same_but_locks_eq: "same_but_locks a b \<Longrightarrow> b = a\<lparr>w_locks := w_locks b\<rparr>"
  by (simp add: same_but_locks_def)

lemma lock_blind_return [blind]: "lock_blind (return_io x)"
  by (simp add: lock_blind_def return_io_def same_but_locks_def)

lemma lock_blind_throw [blind]: "lock_blind (throw e)"
  by (simp add: lock_blind_def throw_def same_but_locks_def)

lemma lock_blind_ask [blind]: "(\<And>w l. f (w\<lparr>w_locks := l\<rparr>) = f w) \<Longrightarrow> lock_blind (ask f)"
  by (simp add: lock_blind_def ask_def same_but_locks_def)

lemma lock_blind_bind [blind]:
  assumes m: "lock_blind m" and f: "\<And>x. lock_blind (f x)"
  shows "lock_blind (bind_io m f)"
  unfolding lock_blind_def
proof (intro allI)
  fix w l
  obtain r w1 where a: "m w = (r, w1)" by (cases "m w")
  obtain r' w1' where b: "m (w\<lparr>w_locks := l\<rparr>) = (r', w1')" by (cases "m (w\<lparr>w_locks := l\<rparr>)")
  from m have "fst (m (w\<lparr>w_locks := l\<rparr>)) = fst (m w) \<and>
      same_but_locks (snd (m w)) (snd (m (w\<lparr>w_locks := l\<rparr>)))"
    unfolding lock_blind_def by blast
  with a b have rr: "r' = r" and s: "same_but_locks w1 w1'" by simp_all
  have e: "w1' = w1\<lparr>w_locks := w_locks w1'\<rparr>" using s by (rule same_but_locks_eq)
  show "fst (bind_io m f (w\<lparr>w_locks := l\<rparr>)) = fst (bind_io m f w) \<and>
        same_but_locks (snd (bind_io m f w)) (snd (bind_io m f (w\<lparr>w_locks := l\<rparr>)))"
  proof (cases r)
    case (Inl err)
    then show ?thesis using a b rr s by (simp add: bind_io_def)
  next
    case (Inr x)
    have "fst (f x w1') = fst (f x w1) \<and> same_but_locks (snd (f x w1)) (snd (f x w1'))"
      using f [of x] e unfolding lock_blind_def by metis
    then show ?thesis using a b rr Inr by (simp add: bind_io_def)
  qed
qed

lemma lock_blind_foreach [blind]:
  "(\<And>x. lock_blind (body x)) \<Longrightarrow> lock_blind (foreach xs body)"
  by (induction xs) (auto intro: blind)

lemma lock_blind_if [blind]:
  "(c \<Longrightarrow> lock_blind a) \<Longrightarrow> (\<not> c \<Longrightarrow> lock_blind b) \<Longrightarrow> lock_blind (if c then a else b)"
  by simp

lemma lock_blind_case_option [blind]:
  "lock_blind a \<Longrightarrow> (\<And>x. lock_blind (b x)) \<Longrightarrow> lock_blind (case opt of None \<Rightarrow> a | Some x \<Rightarrow> b x)"
  by (cases opt) auto

lemma lock_blind_case_list [blind]:
  "lock_blind a \<Longrightarrow> (\<And>x xs. lock_blind (b x xs)) \<Longrightarrow> lock_blind (case l of [] \<Rightarrow> a | x # xs \<Rightarrow> b x xs)"
  by (cases l) auto

lemma lock_blind_Let [blind]: "lock_blind (f x) \<Longrightarrow> lock_blind (Let x f)"
  by simp

lemma lock_blind_setWriteLock [blind]: "lock_blind (setWriteLock p)"
  by (simp add: lock_blind_def setWriteLock_def same_but_locks_def)

lemma lock_blind_vault_read [blind]: "lock_blind (vault_read f)"
  by (simp add: lock_blind_def vault_read_def same_but_locks_def split: option.splits)

lemma lock_blind_vault_modify [blind]: "lock_blind (vault_modify f d)"
  by (simp add: lock_blind_def vault_modify_def same_but_locks_def)

lemma lock_blind_vault_create [blind]: "lock_blind (vault_create p d)"
  by (simp add: lock_blind_def vault_create_def same_but_locks_def split: option.splits)

lemma lock_blind_vault_rename [blind]: "lock_blind (vault_rename f p)"
  by (simp add: lock_blind_def vault_rename_def same_but_locks_def split: option.splits)

lemma lock_blind_ensureHubContentUpToDate [blind]: "lock_blind (ensureHubContentUpToDate h f)"
  unfolding ensureHubContentUpToDate_def by (intro blind) simp_all

lemma lock_blind_rename_hub [blind]: "lock_blind (rename_hub h f n)"
  unfolding rename_hub_def by (intro blind) simp_all

lemma lock_blind_assign_numbered_hub [blind]: "lock_blind (assign_numbered_hub n s fi)"
  unfolding assign_numbered_hub_def by (intro blind) simp_all

lemma lock_blind_assignNumberedHubsForName [blind]: "lock_blind (assignNumberedHubsForName n)"
  unfolding assignNumberedHubsForName_def by (intro blind) simp_all

lemma lock_blind_handleDuplicateFolderNames [blind]: "lock_blind (handleDuplicateFolderNames n)"
  unfolding handleDuplicateFolderNames_def by (intro blind)

lemma lock_blind_upsert [blind]: "lock_blind (upsertHubLinkInNote n)"
  unfolding upsertHubLinkInNote_def by (intro blind) simp_all

lemma lock_blind_refreshLinks [blind]: "lock_blind (refreshLinksInNotesForFolderName n)"
  unfolding refreshLinksInNotesForFolderName_def by (intro blind) simp_all

lemma lock_blind_runSuffixMigrationIfNeeded [blind]: "lock_blind runSuffixMigrationIfNeeded"
  by (simp add: lock_blind_def runSuffixMigrationIfNeeded_eq same_but_locks_def)





section \<open>Self-write suppression and the suppression flag\<close>




text \<open>
  C5. The two remove commands set the suppression flag and save it before they remove
  anything; \<open>onload\<close> and the five handler tasks read the flag. The claim is that, while
  the flag is set, no startup pass runs and no handler creates or changes a hub or a
  link. The code misses that in two places.

  The startup pass. \<open>onload\<close> reads the flag when it sets the timer; the pass that the
  timer starts \<open>STARTUP_DELAY_MS\<close> later does not read it. The plugin is loaded at time
  1000 with the flag off. After 500 ms the user removes all hub notes: the flag is set
  and saved, and the hub \<^verbatim>\<open>b/b_.md\<close> is trashed. When the timer is due the pass runs: it
  creates the hub again and writes the link into the note, with the flag set before and
  after.

  The handlers. They hold the settings object that \<open>registerVaultEvents\<close> read once. The
  button \<^verbatim>\<open>Restore to default\<close> assigns a new object to the plugin, and the remove command
  sets the flag of that object. The handler for a new folder reads the flag of the old
  object, which is off, and creates the hub \<^verbatim>\<open>c/c_.md\<close>.
\<close>

theorem suppression_flag_missed_by_timer_and_captured_settings:
  "autoCreateSuppressedUntilBuildRefresh
     (plugin_settings (run_events [Onload, TimePasses 500, CommandRemoveAllHubNotes, TimePasses 1500]
        (world_with_note ''hello''))) \<and>
   map_option autoCreateSuppressedUntilBuildRefresh
     (w_saved (run_events [Onload, TimePasses 500, CommandRemoveAllHubNotes, TimePasses 1500]
        (world_with_note ''hello''))) = Some True \<and>
   w_writes (run_events [Onload, TimePasses 500, CommandRemoveAllHubNotes, TimePasses 1500]
        (world_with_note ''hello'')) = [Trash ''b/b_.md''] \<and>
   w_writes (run_events [Onload, TimePasses 500, CommandRemoveAllHubNotes, TimePasses 1500, StartupTimer]
        (world_with_note ''hello'')) =
     [Trash ''b/b_.md'',
      Create ''b/b_.md'' (join newline [''## DIRECTORY'', [], ''```display_folder_directory'', ''```'', []]),
      Modify ''b/n.md'' (join newline [''[[b_]]'', [], ''---'', [], ''hello''])] \<and>
   autoCreateSuppressedUntilBuildRefresh
     (plugin_settings (run_events [Onload, TimePasses 500, CommandRemoveAllHubNotes, TimePasses 1500, StartupTimer]
        (world_with_note ''hello''))) \<and>
   autoCreateSuppressedUntilBuildRefresh
     (plugin_settings (run_events [Onload, RestoreToDefault, CommandRemoveAllHubNotes] world_with_new_folder)) \<and>
   map_option autoCreateSuppressedUntilBuildRefresh
     (w_saved (run_events [Onload, RestoreToDefault, CommandRemoveAllHubNotes] world_with_new_folder)) =
     Some True \<and>
   w_writes (run_events [Onload, RestoreToDefault, CommandRemoveAllHubNotes] world_with_new_folder) =
     [Trash ''b/b_.md''] \<and>
   w_writes (run_events [Onload, RestoreToDefault, CommandRemoveAllHubNotes,
                         NotifyCreate (AFolder (top_folder ''c''))] world_with_new_folder) =
     [Trash ''b/b_.md'',
      Create ''c/c_.md'' (join newline [''## DIRECTORY'', [], ''```display_folder_directory'', ''```'', []])] \<and>
   autoCreateSuppressedUntilBuildRefresh
     (plugin_settings (run_events [Onload, RestoreToDefault, CommandRemoveAllHubNotes,
                         NotifyCreate (AFolder (top_folder ''c''))] world_with_new_folder))"
  by code_simp

section \<open>Links at the top of notes\<close>

lemma waitForNumberedHub_now_eq: "waitForNumberedHub_now v folder s = stable_hub v folder s"
proof (cases "stable_hub v folder s")
  case (Some h)
  then show ?thesis
    by (simp add: waitForNumberedHub_now_def waitForNumberedHub_def WAIT_FOR_HUB_ATTEMPTS_def
        wait_loop_step [of _ _ _ 60 0])
next
  case None
  obtain r k where rk: "wait_loop (\<lambda>i. v) folder s 60 0 = (r, k)" by fastforce
  have "r = None"
  proof (cases r)
    case (Some h)
    then have "stable_hub v folder s = Some h" using wait_loop_spec [OF rk] by simp
    then show ?thesis using None by simp
  qed simp
  then show ?thesis using rk None
    by (simp add: waitForNumberedHub_now_def waitForNumberedHub_def WAIT_FOR_HUB_ATTEMPTS_def)
qed

lemma join_split: "join newline (split newline s) = s"
proof (induction s)
  case Nil
  then show ?case by simp
next
  case (Cons c s)
  obtain l ls where sp: "split newline s = l # ls" by (cases s; cases "split newline s") (auto split: if_splits list.splits)
  show ?case using Cons sp by (cases ls) (auto split: list.splits)
qed

lemma split_nonempty: "split sep s \<noteq> []"
  by (induction s) (auto split: list.splits)

lemma strip_lines_spec:
  "stripLeadingHubLinkLines ls folder s \<le> length ls \<and>
   (\<forall>l \<in> set (take (stripLeadingHubLinkLines ls folder s) ls). trim l = [] \<or> isHubLinkLine l folder s) \<and>
   (stripLeadingHubLinkLines ls folder s < length ls \<longrightarrow>
      trim (ls ! stripLeadingHubLinkLines ls folder s) \<noteq> [] \<and>
      \<not> isHubLinkLine (ls ! stripLeadingHubLinkLines ls folder s) folder s)"
  by (induction ls) auto

lemma read_after_modify:
  assumes "content_of (w_vault w) (file_path note) \<noteq> None"
  shows "fst (vault_modify note d w) = Inr () \<and>
         content_of (w_vault (snd (vault_modify note d w))) (file_path note) = Some d"
proof -
  have ex: "getFileByPath (w_vault w) (file_path note) \<noteq> None"
    using assms
    by (auto simp: content_of_def getFileByPath_def find_None_iff map_of_eq_None_iff image_iff)
  have "map_of (map (\<lambda>(f, c). (file_path f, c))
           (map (\<lambda>(f, c). if file_path f = p then (f, d) else (f, c)) xs)) p = Some d"
    if "map_of (map (\<lambda>(f, c). (file_path f, c)) xs) p \<noteq> None" for xs p
    using that by (induction xs) (auto split: if_splits)
  then show ?thesis using assms ex by (simp add: vault_modify_def content_of_def)
qed

lemma list_all2_8:
  "list_all2 P [i1, i2, i3, i4, i5, i6, i7, i8] ps \<Longrightarrow>
   \<exists>a b c d e f g h. ps = [a, b, c, d, e, f, g, h] \<and> P i1 a \<and> P i2 b \<and> P i3 c \<and> P i4 d \<and>
      P i5 e \<and> P i6 f \<and> P i7 g \<and> P i8 h"
  by (simp add: list_all2_Cons1) blast

lemma piece_lit_one: "piece_ok (Atom (Lit c) One) p \<Longrightarrow> p = [c]"
  by (cases p) (auto simp: quant_min_def)

lemma piece_space_star: "piece_ok (Atom Space Star) p \<Longrightarrow> list_all is_space p"
  by (simp add: list_all_iff)

lemma piece_lit_opt: "piece_ok (Atom (Lit c) Opt) p \<Longrightarrow> list_all (\<lambda>x. x = c) p"
  by (simp add: list_all_iff)

lemma rx_remove_first_separator:
  "rx_remove_first rx_separator rest = rest \<or>
   (\<exists>a e g. list_all is_space a \<and> list_all is_space e \<and> list_all is_space g \<and>
      rest = a @ ''---'' @ e @ [newline] @ g @ rx_remove_first rx_separator rest)"
proof (cases "rx_exec rx_separator rest")
  case None
  then show ?thesis by (simp add: rx_remove_first_def)
next
  case (Some m)
  let ?its = "[Atom Space Star, Atom (Lit newline) Opt, Atom (Lit (CHR ''-'')) One,
       Atom (Lit (CHR ''-'')) One, Atom (Lit (CHR ''-'')) One,
       Atom Space Star, Atom (Lit newline) One, Atom Space Star]"
  have its: "items rx_separator = ?its" "anchored rx_separator"
    by (simp_all add: rx_separator_def lits_def)
  obtain ps where ps: "rx_items ?its rest = Some ps" "m = ([], ps)"
    using Some its by (auto simp: rx_exec_def)
  from rx_items_sound [OF ps(1)] obtain r where
    ok: "list_all2 piece_ok ?its ps" and r: "rest = concat ps @ r" by blast
  from list_all2_8 [OF ok] obtain a b d1 d2 d3 e f g where
    shape: "ps = [a, b, d1, d2, d3, e, f, g]"
    and pa: "piece_ok (Atom Space Star) a" and pb: "piece_ok (Atom (Lit newline) Opt) b"
    and pd: "piece_ok (Atom (Lit (CHR ''-'')) One) d1" "piece_ok (Atom (Lit (CHR ''-'')) One) d2"
      "piece_ok (Atom (Lit (CHR ''-'')) One) d3"
    and pe: "piece_ok (Atom Space Star) e" and pf: "piece_ok (Atom (Lit newline) One) f"
    and pg: "piece_ok (Atom Space Star) g"
    by blast
  note a = piece_space_star [OF pa] and e = piece_space_star [OF pe] and g = piece_space_star [OF pg]
  note d = piece_lit_one [OF pd(1)] piece_lit_one [OF pd(2)] piece_lit_one [OF pd(3)]
  note f = piece_lit_one [OF pf]
  have nl: "is_space newline" by (simp add: is_space_def newline_def)
  have ab: "list_all is_space (a @ b)"
    using a piece_lit_opt [OF pb] nl by (auto simp: list_all_iff)
  have rem: "rx_remove_first rx_separator rest = r"
    using Some ps(2) r by (simp add: rx_remove_first_def)
  have "rest = (a @ b) @ ''---'' @ e @ [newline] @ g @ r"
    using r shape d f by simp
  then show ?thesis using ab e g rem by metis
qed


lemma vault_read_content_of:
  "vault_read note w = (case content_of (w_vault w) (file_path note) of
      None \<Rightarrow> (Inl (FileMissing (file_path note)), w) | Some c \<Rightarrow> (Inr c, w))"
  by (simp add: vault_read_def content_of_def)

lemma upsert_read_back:
  assumes "content_of (w_vault w) (file_path note) = Some content"
  shows "fst (upsertHubLinkInNote note w) = Inr () \<and>
         content_of (w_vault (snd (upsertHubLinkInNote note w))) (file_path note) =
           Some (upsert_content (w_vault w) note (w_settings w) content) \<and>
         w_settings (snd (upsertHubLinkInNote note w)) = w_settings w \<and>
         allFolders (w_vault (snd (upsertHubLinkInNote note w))) = allFolders (w_vault w) \<and>
         stats (w_vault (snd (upsertHubLinkInNote note w))) = stats (w_vault w)"
proof (cases "upsert_content (w_vault w) note (w_settings w) content = content")
  case True
  then show ?thesis using assms
    by (simp add: upsertHubLinkInNote_def bind_io_def vault_read_content_of ask_def return_io_def)
next
  case False
  let ?new = "upsert_content (w_vault w) note (w_settings w) content"
  let ?w1 = "snd (setWriteLock (file_path note) w)"
  have v: "w_vault ?w1 = w_vault w" "w_settings ?w1 = w_settings w" by (simp_all add: setWriteLock_def)
  have c1: "content_of (w_vault ?w1) (file_path note) \<noteq> None" using assms v by simp
  have run: "upsertHubLinkInNote note w = vault_modify note ?new ?w1"
    using False assms
    by (simp add: upsertHubLinkInNote_def bind_io_def vault_read_content_of ask_def return_io_def
        setWriteLock_def)
  have fr: "w_settings (snd (vault_modify note ?new ?w1)) = w_settings ?w1"
    "allFolders (w_vault (snd (vault_modify note ?new ?w1))) = allFolders (w_vault ?w1)"
    "stats (w_vault (snd (vault_modify note ?new ?w1))) = stats (w_vault ?w1)"
    by (simp_all add: vault_modify_def)
  show ?thesis using read_after_modify [OF c1, of ?new] v fr by (simp add: run)
qed

lemma upsert_content_leaf:
  assumes par: "file_parent note = Some folder"
    and nr: "\<not> isRoot folder"
    and ns: "\<not> shouldSkipPath (folder_path folder) (pathSkipFromSettings s)"
    and st: "stable_hub v folder s = Some hub"
    and nh: "basename note \<noteq> getExpectedHubNameForFolder v folder s"
  shows "upsert_content v note s content =
     hub_link_block s (wiki_link (getExpectedHubNameForFolder v folder s)) (insertSeparatorAfterHubLink s) @
     (let rest = join newline (drop (stripLeadingHubLinkLines (split newline content) None s)
                                  (split newline content))
      in if insertSeparatorAfterHubLink s then rx_remove_first rx_separator rest else rest)"
proof -
  have link: "getCorrectHubLinkForNote v note s = Some (wiki_link (getExpectedHubNameForFolder v folder s))"
    using par nr ns st by (simp add: getCorrectHubLinkForNote_def waitForNumberedHub_now_eq)
  have hn: "\<not> isHubNote v note s" using par nr nh by (simp add: isHubNote_def)
  show ?thesis by (simp add: upsert_content_def link hn Let_def)
qed

lemma expected_name_same_tree:
  "allFolders v' = allFolders v \<Longrightarrow> stats v' = stats v \<Longrightarrow>
   getExpectedHubNameForFolder v' f s = getExpectedHubNameForFolder v f s"
  by (simp add: getExpectedHubNameForFolder_def getFoldersWithSameName_def ctime_or_zero_def
      stat_ctime_def)

lemma join_drop_suffix: "\<exists>pre. join sep ls = pre @ join sep (drop k ls)"
proof (induction ls arbitrary: k)
  case Nil
  then show ?case by simp
next
  case (Cons l ls)
  show ?case
  proof (cases k)
    case 0
    then show ?thesis by simp
  next
    case (Suc j)
    from Cons [of j] obtain pre where pre: "join sep ls = pre @ join sep (drop j ls)" by blast
    show ?thesis
    proof (cases ls)
      case Nil
      then show ?thesis using Suc by simp
    next
      case (Cons a as)
      then have "join sep (l # ls) = (l @ sep # pre) @ join sep (drop j ls)" using pre by simp
      then show ?thesis using Suc by (metis drop_Suc_Cons)
    qed
  qed
qed

section \<open>The link block of a leaf note\<close>

text \<open>
  What \<open>upsertHubLinkInNote\<close> writes. Take a note that exists, lies in a folder that is
  neither the root nor excluded and whose hub is stable, and is not the hub itself. After
  the call the text of the note is: a blank line if \<open>removeHiddenBlink\<close> is on; the link
  to the expected hub name, inside the hidden span if \<open>autoHideHubLinks\<close> is on; one
  blank line; the separator line and a blank line if the separator setting is on; and
  then the kept text. The expected hub name is the same before and after the call. The
  kept text comes from \<open>rest\<close>, the text after the leading lines that are blank or hub
  links (for the current or the previous suffix): with the separator setting off it is
  \<open>rest\<close>; with the setting on, what the separator pattern matches in front of \<open>rest\<close>
  (white space, three dashes, white space with a line break) is removed first.
\<close>

lemma upsert_link_block_and_kept_text:
  "content_of (w_vault w) (file_path note) = Some content \<and>
   file_parent note = Some folder \<and> \<not> isRoot folder \<and>
   \<not> shouldSkipPath (folder_path folder) (pathSkipFromSettings (w_settings w)) \<and>
   stable_hub (w_vault w) folder (w_settings w) = Some hub \<and>
   basename note \<noteq> getExpectedHubNameForFolder (w_vault w) folder (w_settings w) \<longrightarrow>
   (let s = w_settings w;
        name = getExpectedHubNameForFolder (w_vault w) folder s;
        sep = insertSeparatorAfterHubLink s;
        lines = split newline content;
        k = stripLeadingHubLinkLines lines None s;
        rest = join newline (drop k lines);
        kept = (if sep then rx_remove_first rx_separator rest else rest);
        linkLine =
          (if autoHideHubLinks s
           then ''<span class='' @ [CHR 0x22] @ ''graphforge-ob-hide'' @ [CHR 0x22] @ ''>'' @
                ''[['' @ name @ '']]'' @ ''</span>''
           else ''[['' @ name @ '']]'');
        w' = snd (upsertHubLinkInNote note w)
    in fst (upsertHubLinkInNote note w) = Inr () \<and>
       content_of (w_vault w') (file_path note) =
         Some ((if removeHiddenBlink s then [newline] else []) @ linkLine @ [newline, newline] @
               (if sep then ''---'' @ [newline, newline] else []) @ kept) \<and>
       getExpectedHubNameForFolder (w_vault w') folder (w_settings w') = name \<and>
       k \<le> length lines \<and>
       (\<forall>l \<in> set (take k lines). trim l = [] \<or> isHubLinkLine l None s) \<and>
       (k < length lines \<longrightarrow> trim (lines ! k) \<noteq> [] \<and> \<not> isHubLinkLine (lines ! k) None s) \<and>
       content = join newline (take k lines @ drop k lines) \<and>
       (\<exists>pre. content = pre @ rest) \<and>
       (\<not> sep \<longrightarrow> kept = rest) \<and>
       (kept = rest \<or>
        (\<exists>a e g. list_all is_space a \<and> list_all is_space e \<and> list_all is_space g \<and>
           rest = a @ ''---'' @ e @ [newline] @ g @ kept)))"
proof (intro impI)
  assume h: "content_of (w_vault w) (file_path note) = Some content \<and>
   file_parent note = Some folder \<and> \<not> isRoot folder \<and>
   \<not> shouldSkipPath (folder_path folder) (pathSkipFromSettings (w_settings w)) \<and>
   stable_hub (w_vault w) folder (w_settings w) = Some hub \<and>
   basename note \<noteq> getExpectedHubNameForFolder (w_vault w) folder (w_settings w)"
  define s where "s = w_settings w"
  define name where "name = getExpectedHubNameForFolder (w_vault w) folder s"
  define sep where "sep = insertSeparatorAfterHubLink s"
  define lines where "lines = split newline content"
  define k where "k = stripLeadingHubLinkLines lines None s"
  define rest where "rest = join newline (drop k lines)"
  define kept where "kept = (if sep then rx_remove_first rx_separator rest else rest)"
  define linkLine where "linkLine =
          (if autoHideHubLinks s
           then ''<span class='' @ [CHR 0x22] @ ''graphforge-ob-hide'' @ [CHR 0x22] @ ''>'' @
                ''[['' @ name @ '']]'' @ ''</span>''
           else ''[['' @ name @ '']]'')"
  define w' where "w' = snd (upsertHubLinkInNote note w)"
  have c: "content_of (w_vault w) (file_path note) = Some content" using h by simp
  note rb = upsert_read_back [OF c]
  have shape: "upsert_content (w_vault w) note s content =
      (if removeHiddenBlink s then [newline] else []) @ linkLine @ [newline, newline] @
               (if sep then ''---'' @ [newline, newline] else []) @ kept"
    using h upsert_content_leaf [of "note" folder s "w_vault w" hub content]
    by (simp add: s_def [symmetric] name_def [symmetric] lines_def [symmetric] k_def [symmetric]
        rest_def [symmetric] sep_def [symmetric] kept_def linkLine_def hub_link_block_def
        wiki_link_def CSS_CLASS_OB_HIDE_def Let_def)
  have ok: "fst (upsertHubLinkInNote note w) = Inr ()" using rb by simp
  have rd: "content_of (w_vault w') (file_path note) =
         Some ((if removeHiddenBlink s then [newline] else []) @ linkLine @ [newline, newline] @
               (if sep then ''---'' @ [newline, newline] else []) @ kept)"
    using rb shape by (simp add: w'_def s_def)
  have nm: "getExpectedHubNameForFolder (w_vault w') folder (w_settings w') = name"
    using rb expected_name_same_tree [of "w_vault w'" "w_vault w" folder s]
    by (simp add: w'_def s_def name_def)
  note sl = strip_lines_spec [of lines None s]
  have k1: "k \<le> length lines" using sl by (simp add: k_def)
  have k2: "\<forall>l \<in> set (take k lines). trim l = [] \<or> isHubLinkLine l None s"
    using sl by (simp add: k_def)
  have k3: "k < length lines \<longrightarrow> trim (lines ! k) \<noteq> [] \<and> \<not> isHubLinkLine (lines ! k) None s"
    using sl by (simp add: k_def)
  have j: "content = join newline (take k lines @ drop k lines)"
    by (simp add: lines_def join_split)
  have sfx: "\<exists>pre. content = pre @ rest"
    using join_drop_suffix [of newline lines k] by (simp add: rest_def lines_def join_split)
  have off: "\<not> sep \<longrightarrow> kept = rest" by (simp add: kept_def)
  have rm: "kept = rest \<or>
        (\<exists>a e g. list_all is_space a \<and> list_all is_space e \<and> list_all is_space g \<and>
           rest = a @ ''---'' @ e @ [newline] @ g @ kept)"
    using rx_remove_first_separator [of rest] by (auto simp: kept_def)
  show "let s = w_settings w;
        name = getExpectedHubNameForFolder (w_vault w) folder s;
        sep = insertSeparatorAfterHubLink s;
        lines = split newline content;
        k = stripLeadingHubLinkLines lines None s;
        rest = join newline (drop k lines);
        kept = (if sep then rx_remove_first rx_separator rest else rest);
        linkLine =
          (if autoHideHubLinks s
           then ''<span class='' @ [CHR 0x22] @ ''graphforge-ob-hide'' @ [CHR 0x22] @ ''>'' @
                ''[['' @ name @ '']]'' @ ''</span>''
           else ''[['' @ name @ '']]'');
        w' = snd (upsertHubLinkInNote note w)
    in fst (upsertHubLinkInNote note w) = Inr () \<and>
       content_of (w_vault w') (file_path note) =
         Some ((if removeHiddenBlink s then [newline] else []) @ linkLine @ [newline, newline] @
               (if sep then ''---'' @ [newline, newline] else []) @ kept) \<and>
       getExpectedHubNameForFolder (w_vault w') folder (w_settings w') = name \<and>
       k \<le> length lines \<and>
       (\<forall>l \<in> set (take k lines). trim l = [] \<or> isHubLinkLine l None s) \<and>
       (k < length lines \<longrightarrow> trim (lines ! k) \<noteq> [] \<and> \<not> isHubLinkLine (lines ! k) None s) \<and>
       content = join newline (take k lines @ drop k lines) \<and>
       (\<exists>pre. content = pre @ rest) \<and>
       (\<not> sep \<longrightarrow> kept = rest) \<and>
       (kept = rest \<or>
        (\<exists>a e g. list_all is_space a \<and> list_all is_space e \<and> list_all is_space g \<and>
           rest = a @ ''---'' @ e @ [newline] @ g @ kept))"
    unfolding Let_def
    using ok rd nm k1 k2 k3 j sfx off rm
    unfolding s_def name_def sep_def lines_def k_def rest_def kept_def linkLine_def w'_def
    by (intro conjI)
qed


lemma upsert_link_block_example:
  "content_of (w_vault (world_with_note (join newline [''[[old_3]]'', [], ''hello'', ''world''])))
     (file_path (md_file (top_folder ''b'') ''n'')) =
     Some (join newline [''[[old_3]]'', [], ''hello'', ''world'']) \<and>
   stable_hub (w_vault (world_with_note (join newline [''[[old_3]]'', [], ''hello'', ''world''])))
     (top_folder ''b'') live_settings = Some (md_file (top_folder ''b'') ''b_'') \<and>
   fst (upsertHubLinkInNote (md_file (top_folder ''b'') ''n'')
          (world_with_note (join newline [''[[old_3]]'', [], ''hello'', ''world'']))) = Inr () \<and>
   content_of
     (w_vault (snd (upsertHubLinkInNote (md_file (top_folder ''b'') ''n'')
          (world_with_note (join newline [''[[old_3]]'', [], ''hello'', ''world''])))))
     ''b/n.md'' = Some (join newline [''[[b_]]'', [], ''---'', [], ''hello'', ''world''])"
proof -
  let ?c = "join newline [''[[old_3]]'', [], ''hello'', ''world'']"
  let ?w = "world_with_note ?c"
  let ?n = "md_file (top_folder ''b'') ''n''"
  have h1: "content_of (w_vault ?w) (file_path ?n) = Some ?c" by code_simp
  have h2: "file_parent ?n = Some (top_folder ''b'')" by code_simp
  have h3: "\<not> isRoot (top_folder ''b'')" by code_simp
  have h4: "\<not> shouldSkipPath (folder_path (top_folder ''b'')) (pathSkipFromSettings (w_settings ?w))"
    by code_simp
  have h5: "stable_hub (w_vault ?w) (top_folder ''b'') (w_settings ?w) = Some (md_file (top_folder ''b'') ''b_'')"
    by code_simp
  have h6: "basename ?n \<noteq> getExpectedHubNameForFolder (w_vault ?w) (top_folder ''b'') (w_settings ?w)"
    by code_simp
  have s: "w_settings ?w = live_settings" by (simp add: world_with_note_def world_of_def)
  have r: "content_of (w_vault (snd (upsertHubLinkInNote ?n ?w))) ''b/n.md'' =
      Some (join newline [''[[b_]]'', [], ''---'', [], ''hello'', ''world''])"
    by code_simp
  note t = upsert_link_block_and_kept_text
      [of ?w ?n ?c "top_folder ''b''" "md_file (top_folder ''b'') ''b_''", THEN mp,
       OF conjI [OF h1 conjI [OF h2 conjI [OF h3 conjI [OF h4 conjI [OF h5 h6]]]]],
       unfolded Let_def, THEN conjunct1]
  have h5': "stable_hub (w_vault ?w) (top_folder ''b'') live_settings = Some (md_file (top_folder ''b'') ''b_'')"
    using h5 by (simp only: s)
  from h1 h5' t r show ?thesis by (intro conjI)
qed

text \<open>
  C3. After \<open>upsertHubLinkInNote\<close> the note starts with the link block, and everything
  after the old link block is to be kept byte for byte. The block that the code writes is
  the link line, a blank line, the separator line and a blank line, and the code removes
  an old separator so that the block is replaced and not doubled: a note that holds the
  block and then the line \<^verbatim>\<open>hello\<close> is left as it is. The pattern that removes the
  separator takes more than the separator. In a note that holds the block and then a line
  indented by four spaces, the lines after the link lines are the separator, a blank line
  and the indented line; after the call the indented line has lost its four spaces. In a
  note that starts with a front-matter fence and has no link yet, no line is stripped,
  and after the call the opening fence is gone.
\<close>

theorem upsert_separator_pattern_takes_note_text:
  "w_writes (snd (upsertHubLinkInNote (md_file (top_folder ''b'') ''n'')
          (world_with_note (join newline [''[[b_]]'', [], ''---'', [], ''hello''])))) = [] \<and>
   stripLeadingHubLinkLines
     (split newline (join newline [''[[b_]]'', [], ''---'', [], ''    code''])) None live_settings = 2 \<and>
   content_of
     (w_vault (snd (upsertHubLinkInNote (md_file (top_folder ''b'') ''n'')
          (world_with_note (join newline [''[[b_]]'', [], ''---'', [], ''    code''])))))
     ''b/n.md'' = Some (join newline [''[[b_]]'', [], ''---'', [], ''code'']) \<and>
   stripLeadingHubLinkLines
     (split newline (join newline [''---'', ''title: x'', ''---'', ''body''])) None live_settings = 0 \<and>
   content_of
     (w_vault (snd (upsertHubLinkInNote (md_file (top_folder ''b'') ''n'')
          (world_with_note (join newline [''---'', ''title: x'', ''---'', ''body''])))))
     ''b/n.md'' = Some (join newline [''[[b_]]'', [], ''---'', [], ''title: x'', ''---'', ''body''])"
  by code_simp

section \<open>Loops\<close>


lemma foreach_noop:
  assumes "\<And>x. x \<in> set xs \<Longrightarrow> body x w = (Inr (), w)"
  shows "foreach xs body w = (Inr (), w)"
  using assms by (induction xs) (auto simp: bind_io_def return_io_def)

section \<open>The previous suffix\<close>

subsection \<open>The trace of storage operations only grows\<close>

named_theorems grow

lemma grows_return [grow]: "grows (return_io x)"
  by (simp add: grows_def return_io_def)

lemma grows_throw [grow]: "grows (throw e)"
  by (simp add: grows_def throw_def)

lemma grows_ask [grow]: "grows (ask f)"
  by (simp add: grows_def ask_def)

lemma grows_bind [grow]:
  assumes "grows m" and "\<And>x. grows (f x)"
  shows "grows (bind_io m f)"
  unfolding grows_def
proof
  fix w
  obtain r w1 where a: "m w = (r, w1)" by (cases "m w")
  from assms(1) a obtain ys where y: "w_writes w1 = w_writes w @ ys"
    unfolding grows_def by (metis snd_conv)
  show "\<exists>zs. w_writes (snd (bind_io m f w)) = w_writes w @ zs"
  proof (cases r)
    case (Inl e)
    then show ?thesis using a y by (simp add: bind_io_def)
  next
    case (Inr x)
    from assms(2) [of x] obtain zs where "w_writes (snd (f x w1)) = w_writes w1 @ zs"
      unfolding grows_def by blast
    then show ?thesis using a y Inr by (simp add: bind_io_def)
  qed
qed

lemma grows_foreach [grow]: "(\<And>x. grows (body x)) \<Longrightarrow> grows (foreach xs body)"
  by (induction xs) (auto intro: grow)

lemma grows_if [grow]:
  "(c \<Longrightarrow> grows a) \<Longrightarrow> (\<not> c \<Longrightarrow> grows b) \<Longrightarrow> grows (if c then a else b)"
  by simp

lemma grows_case_option [grow]:
  "grows a \<Longrightarrow> (\<And>x. grows (b x)) \<Longrightarrow> grows (case opt of None \<Rightarrow> a | Some x \<Rightarrow> b x)"
  by (cases opt) auto

lemma grows_case_list [grow]:
  "grows a \<Longrightarrow> (\<And>x xs. grows (b x xs)) \<Longrightarrow> grows (case l of [] \<Rightarrow> a | x # xs \<Rightarrow> b x xs)"
  by (cases l) auto

lemma grows_Let [grow]: "grows (f x) \<Longrightarrow> grows (Let x f)"
  by simp

lemma grows_setWriteLock [grow]: "grows (setWriteLock p)"
  by (simp add: grows_def setWriteLock_def)

lemma grows_vault_read [grow]: "grows (vault_read f)"
  by (simp add: grows_def vault_read_def split: option.splits)

lemma grows_vault_modify [grow]: "grows (vault_modify f d)"
  by (simp add: grows_def vault_modify_def)

lemma grows_vault_create [grow]: "grows (vault_create p d)"
  by (simp add: grows_def vault_create_def split: option.splits)

lemma grows_vault_rename [grow]: "grows (vault_rename f p)"
  by (simp add: grows_def vault_rename_def split: option.splits)

lemma grows_trashFile [grow]: "grows (trashFile f)"
  by (simp add: grows_def trashFile_def)

lemma grows_app_vault [grow]: "grows (app_vault app)"
  by (cases app) (simp_all add: app_vault_def grow)

lemma grows_ensureHubContentUpToDate [grow]: "grows (ensureHubContentUpToDate h f)"
  unfolding ensureHubContentUpToDate_def by (intro grow)

lemma grows_ensureHubForFolder [grow]: "grows (ensureHubForFolder f)"
  unfolding ensureHubForFolder_def by (intro grow)

lemma grows_rename_hub [grow]: "grows (rename_hub h f n)"
  unfolding rename_hub_def by (intro grow)

lemma grows_assign_numbered_hub [grow]: "grows (assign_numbered_hub n s fi)"
  unfolding assign_numbered_hub_def by (intro grow)

lemma grows_assignNumberedHubsForName [grow]: "grows (assignNumberedHubsForName n)"
  unfolding assignNumberedHubsForName_def by (intro grow)



lemma drop_mono:
  "w_writes w' = w_writes w @ ys \<Longrightarrow> n \<le> length (w_writes w) \<Longrightarrow>
   set (drop n (w_writes w)) \<subseteq> set (drop n (w_writes w'))"
  by simp



lemma kept_or_trashed_mono:
  assumes "kept_or_trashed n fs u" "w_writes u' = w_writes u @ ys"
    "files (w_vault u') = files (w_vault u)"
  shows "kept_or_trashed n fs u'"
  using assms by (auto simp: kept_or_trashed_def)





subsection \<open>Who writes the settings\<close>


lemma preserves_plugin_settings_prims [pres]:
  "preserves w_plugin_settings (setWriteLock p)"
  "preserves w_plugin_settings (vault_modify f d)"
  "preserves w_plugin_settings (vault_create q d)"
  "preserves w_plugin_settings (vault_rename f q)"
  "preserves w_plugin_settings (trashFile f)"
  "preserves w_plugin_settings (isWriteLocked p)"
  "preserves w_plugin_settings saveSettings"
  "preserves w_plugin_settings (set_settings g)"
  by (simp_all add: preserves_def setWriteLock_def vault_modify_def vault_create_def
      vault_rename_def trashFile_def isWriteLocked_def saveSettings_def set_settings_def
      split: option.splits)

lemma preserves_plugin_settings_hubs [pres]:
  "preserves w_plugin_settings (ensureHubContentUpToDate h f)"
  "preserves w_plugin_settings (ensureHubForFolder f)"
  "preserves w_plugin_settings (rename_hub h f n)"
  "preserves w_plugin_settings (assign_numbered_hub n s fi)"
  unfolding ensureHubContentUpToDate_def ensureHubForFolder_def rename_hub_def
    assign_numbered_hub_def
  by (intro pres)+

lemma preserves_plugin_settings_passes [pres]:
  "preserves w_plugin_settings (assignNumberedHubsForName n)"
  "preserves w_plugin_settings (handleDuplicateFolderNames n)"
  "preserves w_plugin_settings (deleteAllHubFilesWithSuffix app sfx)"
  "preserves w_plugin_settings (upsertHubLinkInNote note)"
  unfolding assignNumberedHubsForName_def handleDuplicateFolderNames_def
    deleteAllHubFilesWithSuffix_def delete_hub_files_in_def upsertHubLinkInNote_def
  by (intro pres)+

lemma preserves_plugin_settings_full [pres]:
  "preserves w_plugin_settings (buildRefreshHubNotes app)"
  "preserves w_plugin_settings (removeAllHubNotes app)"
  "preserves w_plugin_settings removeAllHubLinksFromNotes"
  "preserves w_plugin_settings (refreshLinksInNotesForFolderName n)"
  unfolding buildRefreshHubNotes_def migrateHubSuffix_def removeAllHubNotes_def
    removeAllHubLinksFromNotes_def refreshLinksInNotesForFolderName_def
  by (intro pres)+

lemma preserves_plugin_settings_handlers [pres]:
  "preserves w_plugin_settings (onFolderCreate f)"
  "preserves w_plugin_settings (onFolderRename f p)"
  "preserves w_plugin_settings (onFolderDelete n)"
  "preserves w_plugin_settings (onFileCreate g)"
  "preserves w_plugin_settings (onFileRename g)"
  unfolding onFolderCreate_def onFolderRename_def onFolderDelete_def onFileCreate_def
    onFileRename_def
  by (intro pres)+

lemma preserves_pair:
  "preserves g m \<Longrightarrow> preserves h m \<Longrightarrow> preserves (\<lambda>w. (g w, h w)) m"
  by (simp add: preserves_def)











end
